theory Spec2Isabelle
  imports Main "HOL-Library.AList"
begin

section \<open>Python strings\<close>

text \<open>
  A Python \<open>str\<close> is a sequence of Unicode code points; it is modelled as a list of
  natural numbers, one per code point.  \<open>str\<close> embeds an ASCII literal.
\<close>

type_synonym pystr = "nat list"

definition str :: "string \<Rightarrow> pystr" where
  "str s = map of_char s"

text \<open>The characters removed by \<open>str.strip()\<close> without argument (\<open>str.isspace\<close>).\<close>

definition is_py_space :: "nat \<Rightarrow> bool" where
  "is_py_space c \<longleftrightarrow>
     (9 \<le> c \<and> c \<le> 13) \<or> (28 \<le> c \<and> c \<le> 32) \<or> c = 133 \<or> c = 160 \<or> c = 5760 \<or>
     (8192 \<le> c \<and> c \<le> 8202) \<or> c = 8232 \<or> c = 8233 \<or> c = 8239 \<or> c = 8287 \<or> c = 12288"

definition rstrip_by :: "(nat \<Rightarrow> bool) \<Rightarrow> pystr \<Rightarrow> pystr" where
  "rstrip_by P s = rev (dropWhile P (rev s))"

definition strip_by :: "(nat \<Rightarrow> bool) \<Rightarrow> pystr \<Rightarrow> pystr" where
  "strip_by P s = dropWhile P (rstrip_by P s)"

text \<open>\<open>s.split(sep, 1)\<close> for a one-character separator.\<close>

definition split_first :: "nat \<Rightarrow> pystr \<Rightarrow> pystr list" where
  "split_first sep s =
     (if sep \<in> set s then [takeWhile (\<lambda>c. c \<noteq> sep) s, tl (dropWhile (\<lambda>c. c \<noteq> sep) s)]
      else [s])"

definition starts_with :: "pystr \<Rightarrow> pystr \<Rightarrow> bool" where
  "starts_with p s \<longleftrightarrow> take (length p) s = p"

section \<open>JSON values\<close>

text \<open>
  The values exchanged with the page and produced by \<open>json.loads\<close>: \<open>None\<close>, \<open>bool\<close>,
  \<open>int\<close>, \<open>float\<close>, \<open>str\<close>, \<open>list\<close> and \<open>dict\<close>.  Floating-point numbers are left
  abstract (the type parameter \<open>'f\<close>); what the program does with them is supplied
  by three functions: \<open>float(text)\<close>, the text \<open>json.dumps\<close> prints for a float, and
  its truth value.  A \<open>dict\<close> is an association list in insertion order.
\<close>

datatype 'f json =
    JNull
  | JBool bool
  | JInt int
  | JFloat 'f
  | JStr pystr
  | JArr "'f json list"
  | JObj "(pystr \<times> 'f json) list"

datatype exn =
    KeyError pystr
  | TypeError
  | AttributeError
  | JSONDecodeError
  | External nat

text \<open>Truth value of a Python object, as tested by \<open>if x\<close> and \<open>not x\<close>.\<close>

fun truthy :: "('f \<Rightarrow> bool) \<Rightarrow> 'f json \<Rightarrow> bool" where
  "truthy fb JNull = False"
| "truthy fb (JBool b) = b"
| "truthy fb (JInt i) = (i \<noteq> 0)"
| "truthy fb (JFloat x) = fb x"
| "truthy fb (JStr s) = (s \<noteq> [])"
| "truthy fb (JArr vs) = (vs \<noteq> [])"
| "truthy fb (JObj d) = (d \<noteq> [])"

text \<open>\<open>v[k]\<close>: \<open>KeyError\<close> on a missing key, \<open>TypeError\<close> when \<open>v\<close> is not a \<open>dict\<close>.\<close>

definition subscript :: "'f json \<Rightarrow> pystr \<Rightarrow> exn + 'f json" where
  "subscript v k =
     (case v of
        JObj d \<Rightarrow> (case map_of d k of None \<Rightarrow> Inl (KeyError k) | Some x \<Rightarrow> Inr x)
      | _ \<Rightarrow> Inl TypeError)"

text \<open>\<open>v.get(k)\<close>: \<open>None\<close> on a missing key, \<open>AttributeError\<close> when \<open>v\<close> is not a \<open>dict\<close>.\<close>

definition dict_get :: "(pystr \<times> 'f json) list \<Rightarrow> pystr \<Rightarrow> 'f json" where
  "dict_get d k = (case map_of d k of None \<Rightarrow> JNull | Some x \<Rightarrow> x)"

definition py_get :: "'f json \<Rightarrow> pystr \<Rightarrow> exn + 'f json" where
  "py_get v k = (case v of JObj d \<Rightarrow> Inr (dict_get d k) | _ \<Rightarrow> Inl AttributeError)"

text \<open>\<open>v[k] = x\<close>: \<open>TypeError\<close> when \<open>v\<close> is not a \<open>dict\<close>.\<close>

definition setitem :: "'f json \<Rightarrow> pystr \<Rightarrow> 'f json \<Rightarrow> exn + 'f json" where
  "setitem v k x = (case v of JObj d \<Rightarrow> Inr (JObj (AList.update k x d)) | _ \<Rightarrow> Inl TypeError)"

text \<open>\<open>k in v\<close> for a \<open>dict\<close> \<open>v\<close>.\<close>

definition py_contains :: "(pystr \<times> 'f json) list \<Rightarrow> pystr \<Rightarrow> bool" where
  "py_contains d k \<longleftrightarrow> map_of d k \<noteq> None"

text \<open>\<open>dict(pairs)\<close>: a later pair overwrites the value of an earlier equal key.\<close>

definition mk_dict :: "(pystr \<times> 'f json) list \<Rightarrow> (pystr \<times> 'f json) list" where
  "mk_dict pairs = fold (\<lambda>(k, v) d. AList.update k v d) pairs []"

section \<open>\<open>json.loads\<close>\<close>

text \<open>
  The decoder of the standard library, by its grammar: a scanner that skips the
  whitespace \<open>[ \t\n\r]*\<close> before every token, and the object/array structure over the
  tokens.  Every \<open>JSONDecodeError\<close> is the one value \<open>Inl JSONDecodeError\<close>; the
  interpreter's recursion and integer-digit limits are not modelled.
\<close>

datatype token =
    TLBrace | TRBrace | TLBrack | TRBrack | TComma | TColon
  | TStr pystr | TInt int | TFloat pystr | TTrue | TFalse | TNull

definition is_json_ws :: "nat \<Rightarrow> bool" where
  "is_json_ws c \<longleftrightarrow> c = 32 \<or> c = 9 \<or> c = 10 \<or> c = 13"

definition is_digit :: "nat \<Rightarrow> bool" where
  "is_digit c \<longleftrightarrow> 48 \<le> c \<and> c \<le> 57"

definition hex_val :: "nat \<Rightarrow> nat option" where
  "hex_val c =
     (if 48 \<le> c \<and> c \<le> 57 then Some (c - 48)
      else if 97 \<le> c \<and> c \<le> 102 then Some (c - 87)
      else if 65 \<le> c \<and> c \<le> 70 then Some (c - 55)
      else None)"

definition decode_uXXXX :: "nat \<Rightarrow> nat \<Rightarrow> nat \<Rightarrow> nat \<Rightarrow> nat option" where
  "decode_uXXXX h1 h2 h3 h4 =
     (case hex_val h1 of None \<Rightarrow> None | Some a \<Rightarrow>
     (case hex_val h2 of None \<Rightarrow> None | Some b \<Rightarrow>
     (case hex_val h3 of None \<Rightarrow> None | Some c \<Rightarrow>
     (case hex_val h4 of None \<Rightarrow> None | Some d \<Rightarrow>
        Some (((a * 16 + b) * 16 + c) * 16 + d)))))"

definition hex4 :: "pystr \<Rightarrow> (nat \<times> pystr) option" where
  "hex4 s =
     (case s of
        h1 # h2 # h3 # h4 # r \<Rightarrow> map_option (\<lambda>u. (u, r)) (decode_uXXXX h1 h2 h3 h4)
      | _ \<Rightarrow> None)"

text \<open>The table \<open>BACKSLASH\<close> of one-character escapes.\<close>

definition backslash :: "nat \<Rightarrow> nat option" where
  "backslash e =
     (if e = 34 then Some 34
      else if e = 92 then Some 92
      else if e = 47 then Some 47
      else if e = 98 then Some 8
      else if e = 102 then Some 12
      else if e = 110 then Some 10
      else if e = 114 then Some 13
      else if e = 116 then Some 9
      else None)"

text \<open>
  The text after a backslash: a one-character escape, or \<open>uXXXX\<close>, where a high
  surrogate followed by an escaped low surrogate is joined into one code point.
\<close>

definition scan_escape :: "pystr \<Rightarrow> (nat \<times> pystr) option" where
  "scan_escape s =
     (case s of
        [] \<Rightarrow> None
      | esc # r1 \<Rightarrow>
          if esc \<noteq> 117 then map_option (\<lambda>ch. (ch, r1)) (backslash esc)
          else
            (case hex4 r1 of
               None \<Rightarrow> None
             | Some (uni, r2) \<Rightarrow>
                 if 55296 \<le> uni \<and> uni \<le> 56319 \<and> starts_with [92, 117] r2 then
                   (case hex4 (drop 2 r2) of
                      None \<Rightarrow> None
                    | Some (uni2, r4) \<Rightarrow>
                        if 56320 \<le> uni2 \<and> uni2 \<le> 57343
                        then Some (65536 + ((uni - 55296) * 1024 + (uni2 - 56320)), r4)
                        else Some (uni, r2))
                 else Some (uni, r2)))"

lemma hex4_length: "hex4 s = Some (u, r) \<Longrightarrow> length s = length r + 4"
  by (auto simp: hex4_def split: list.splits)

lemma scan_escape_length: "scan_escape s = Some (ch, r) \<Longrightarrow> length r < length s"
  by (auto simp: scan_escape_def split: list.splits if_splits option.splits dest!: hex4_length)

definition chunk :: "nat \<Rightarrow> (pystr \<times> pystr) option \<Rightarrow> (pystr \<times> pystr) option" where
  "chunk c res = map_option (\<lambda>(s, rest). (c # s, rest)) res"

text \<open>
  \<open>scanstring\<close> (strict): the text after an opening quote, up to the closing quote;
  a raw control character, a bad escape and a missing closing quote are errors.
\<close>

function scanstring :: "pystr \<Rightarrow> (pystr \<times> pystr) option" where
  "scanstring [] = None"
| "scanstring (c # r) =
    (if c = 34 then Some ([], r)
     else if c = 92 then
       (case scan_escape r of
          None \<Rightarrow> None
        | Some (ch, r') \<Rightarrow> chunk ch (scanstring r'))
     else if c < 32 then None
     else chunk c (scanstring r))"
  by pat_completeness auto
termination
  by (relation "measure length") (auto dest: scan_escape_length)

fun digits_val :: "nat \<Rightarrow> pystr \<Rightarrow> nat" where
  "digits_val acc [] = acc"
| "digits_val acc (d # ds) = digits_val (acc * 10 + (d - 48)) ds"

text \<open>\<open>int(text)\<close> for an optional minus sign and decimal digits.\<close>

definition py_int :: "pystr \<Rightarrow> int" where
  "py_int s =
     (case s of
        [] \<Rightarrow> 0
      | c # r \<Rightarrow> if c = 45 then - int (digits_val 0 r) else int (digits_val 0 s))"

text \<open>
  \<open>NUMBER_RE\<close>: \<open>(-?(?:0|[1-9][0-9]*))(\.[0-9]+)?([eE][-+]?[0-9]+)?\<close>, matched at the
  start of the text, in four parts.
\<close>

definition sign_part :: "pystr \<Rightarrow> pystr \<times> pystr" where
  "sign_part s = (case s of [] \<Rightarrow> ([], s) | c # r \<Rightarrow> if c = 45 then ([c], r) else ([], s))"

definition int_part :: "pystr \<Rightarrow> (pystr \<times> pystr) option" where
  "int_part s =
     (case s of
        [] \<Rightarrow> None
      | d # r \<Rightarrow>
          if \<not> is_digit d then None
          else if d = 48 then Some ([d], r)
          else Some (d # takeWhile is_digit r, dropWhile is_digit r))"

definition frac_part :: "pystr \<Rightarrow> pystr \<times> pystr" where
  "frac_part s =
     (case s of
        [] \<Rightarrow> ([], s)
      | p # q \<Rightarrow>
          if p = 46 \<and> takeWhile is_digit q \<noteq> []
          then (p # takeWhile is_digit q, dropWhile is_digit q)
          else ([], s))"

definition exp_part :: "pystr \<Rightarrow> pystr \<times> pystr" where
  "exp_part s =
     (case s of
        [] \<Rightarrow> ([], s)
      | e # q \<Rightarrow>
          if e = 101 \<or> e = 69 then
            (let sg = (case q of [] \<Rightarrow> [] | x # y \<Rightarrow> if x = 43 \<or> x = 45 then [x] else []);
                 q1 = drop (length sg) q
             in if takeWhile is_digit q1 \<noteq> []
                then (e # sg @ takeWhile is_digit q1, dropWhile is_digit q1)
                else ([], s))
          else ([], s))"

definition match_number :: "pystr \<Rightarrow> (token \<times> pystr) option" where
  "match_number s =
     (case int_part (snd (sign_part s)) of
        None \<Rightarrow> None
      | Some (ip, r1) \<Rightarrow>
          let integer = fst (sign_part s) @ ip;
              frac = fst (frac_part r1);
              ex = fst (exp_part (snd (frac_part r1)));
              rest = snd (exp_part (snd (frac_part r1)))
          in Some (if frac = [] \<and> ex = [] then TInt (py_int integer)
                   else TFloat (integer @ frac @ ex), rest))"

text \<open>
  The tokens \<open>scan_once\<close> recognises by their first characters, other than strings
  and brackets: the three literals, a number, and the three float constants.
\<close>

definition scan_atom :: "pystr \<Rightarrow> (token \<times> pystr) option" where
  "scan_atom s =
     (if starts_with (str ''null'') s then Some (TNull, drop 4 s)
      else if starts_with (str ''true'') s then Some (TTrue, drop 4 s)
      else if starts_with (str ''false'') s then Some (TFalse, drop 5 s)
      else (case match_number s of
              Some res \<Rightarrow> Some res
            | None \<Rightarrow>
                if starts_with (str ''NaN'') s then Some (TFloat (str ''NaN''), drop 3 s)
                else if starts_with (str ''Infinity'') s
                  then Some (TFloat (str ''Infinity''), drop 8 s)
                else if starts_with (str ''-Infinity'') s
                  then Some (TFloat (str ''-Infinity''), drop 9 s)
                else None))"

definition punct :: "nat \<Rightarrow> token option" where
  "punct c =
     (if c = 123 then Some TLBrace
      else if c = 125 then Some TRBrace
      else if c = 91 then Some TLBrack
      else if c = 93 then Some TRBrack
      else if c = 44 then Some TComma
      else if c = 58 then Some TColon
      else None)"

definition next_token :: "pystr \<Rightarrow> (token \<times> pystr) option" where
  "next_token s =
     (case s of
        [] \<Rightarrow> None
      | c # r \<Rightarrow>
          (case punct c of
             Some t \<Rightarrow> Some (t, r)
           | None \<Rightarrow>
               if c = 34 then map_option (\<lambda>(k, rest). (TStr k, rest)) (scanstring r)
               else scan_atom s))"

lemma scanstring_length: "scanstring s = Some (k, rest) \<Longrightarrow> length rest < length s"
proof (induction s arbitrary: k rest rule: scanstring.induct)
  case 1
  then show ?case by simp
next
  case (2 c r)
  show ?case
  proof (cases "c = 34")
    case True
    with 2(3) show ?thesis by simp
  next
    case c34: False
    show ?thesis
    proof (cases "c = 92")
      case True
      with c34 2(3) obtain ch r' k' where e: "scan_escape r = Some (ch, r')"
        and s: "scanstring r' = Some (k', rest)"
        by (auto simp: chunk_def split: option.splits)
      from 2(1)[OF c34 True e refl s] scan_escape_length[OF e] show ?thesis by simp
    next
      case False
      with c34 2(3) obtain k' where c: "\<not> c < 32" and s: "scanstring r = Some (k', rest)"
        by (auto simp: chunk_def split: if_splits)
      from 2(2)[OF c34 False c s] show ?thesis by simp
    qed
  qed
qed

lemma sign_part_length: "length (snd (sign_part s)) \<le> length s"
  by (simp add: sign_part_def split: list.splits)

lemma int_part_length: "int_part s = Some (ip, r) \<Longrightarrow> length r < length s"
  by (auto simp: int_part_def less_Suc_eq_le length_dropWhile_le split: list.splits if_splits)

lemma frac_part_length: "length (snd (frac_part s)) \<le> length s"
  by (auto simp: frac_part_def le_SucI length_dropWhile_le split: list.splits)

lemma exp_part_length: "length (snd (exp_part s)) \<le> length s"
proof -
  have "length (dropWhile is_digit (drop n q)) \<le> length q" for n and q :: pystr
    using length_dropWhile_le[of is_digit "drop n q"] by simp
  then show ?thesis
    by (auto simp: exp_part_def Let_def le_SucI split: list.splits)
qed

lemma match_number_length: "match_number s = Some (t, rest) \<Longrightarrow> length rest < length s"
proof -
  assume "match_number s = Some (t, rest)"
  then obtain ip r1 where i: "int_part (snd (sign_part s)) = Some (ip, r1)"
    and r: "rest = snd (exp_part (snd (frac_part r1)))"
    by (auto simp: match_number_def Let_def split: option.splits)
  have "length rest \<le> length r1"
    unfolding r using exp_part_length[of "snd (frac_part r1)"] frac_part_length[of r1] by simp
  with int_part_length[OF i] sign_part_length[of s] show ?thesis by simp
qed

lemma starts_with_drop_length:
  "starts_with p s \<Longrightarrow> p \<noteq> [] \<Longrightarrow> length (drop (length p) s) < length s"
proof -
  assume a: "starts_with p s" and b: "p \<noteq> []"
  from a have "length (take (length p) s) = length p" by (simp add: starts_with_def)
  then have "length p \<le> length s" by simp
  with b show ?thesis by (cases p) auto
qed

lemma scan_atom_length: "scan_atom s = Some (t, rest) \<Longrightarrow> length rest < length s"
proof -
  assume a: "scan_atom s = Some (t, rest)"
  have d: "starts_with (str w) s \<Longrightarrow> w \<noteq> [] \<Longrightarrow> length s - length w < length s" for w
    using starts_with_drop_length[of "str w" s] by (simp add: str_def)
  from a show ?thesis
    unfolding scan_atom_def
    by (auto split: if_splits option.splits dest: match_number_length dest!: d)
qed

lemma next_token_length: "next_token s = Some (t, rest) \<Longrightarrow> length rest < length s"
  by (auto simp: next_token_def split: list.splits option.splits if_splits
      dest: scanstring_length scan_atom_length)

text \<open>The token sequence of a text; \<open>None\<close> where the scanner finds no token.\<close>

function lex :: "pystr \<Rightarrow> token list option" where
  "lex s =
     (if dropWhile is_json_ws s = [] then Some []
      else (case next_token (dropWhile is_json_ws s) of
              None \<Rightarrow> None
            | Some (t, rest) \<Rightarrow> map_option ((#) t) (lex rest)))"
  by pat_completeness auto
termination
proof (relation "measure length", goal_cases)
  case 1
  show ?case by simp
next
  case (2 s x2 t rest)
  then have "length rest < length (dropWhile is_json_ws s)"
    by (auto dest: next_token_length)
  with length_dropWhile_le[of is_json_ws s] show ?case by simp
qed

declare lex.simps [simp del]

text \<open>
  The structure over the tokens, as \<open>JSONObject\<close> and \<open>JSONArray\<close> build it; the
  Python call stack is the explicit list of enclosing containers.
\<close>

datatype 'f ctx =
    CArr "'f json list"
  | CObj "(pystr \<times> 'f json) list" pystr

datatype 'f pstate =
    SValue "'f ctx list"
  | SArrStart "'f ctx list"
  | SObjStart "'f ctx list"
  | SKey "(pystr \<times> 'f json) list" "'f ctx list"
  | SColon "(pystr \<times> 'f json) list" pystr "'f ctx list"
  | SAfterArr "'f json list" "'f ctx list"
  | SAfterObj "(pystr \<times> 'f json) list" "'f ctx list"
  | SDone "'f json"

fun give_value :: "'f json \<Rightarrow> 'f ctx list \<Rightarrow> 'f pstate" where
  "give_value v [] = SDone v"
| "give_value v (CArr vs # st) = SAfterArr (vs @ [v]) st"
| "give_value v (CObj ps k # st) = SAfterObj (ps @ [(k, v)]) st"

fun scalar :: "(pystr \<Rightarrow> 'f) \<Rightarrow> token \<Rightarrow> 'f json option" where
  "scalar pf (TStr s) = Some (JStr s)"
| "scalar pf (TInt i) = Some (JInt i)"
| "scalar pf (TFloat l) = Some (JFloat (pf l))"
| "scalar pf TTrue = Some (JBool True)"
| "scalar pf TFalse = Some (JBool False)"
| "scalar pf TNull = Some JNull"
| "scalar pf _ = None"

definition begin_value :: "(pystr \<Rightarrow> 'f) \<Rightarrow> token \<Rightarrow> 'f ctx list \<Rightarrow> 'f pstate option" where
  "begin_value pf t st =
     (if t = TLBrack then Some (SArrStart st)
      else if t = TLBrace then Some (SObjStart st)
      else map_option (\<lambda>v. give_value v st) (scalar pf t))"

fun step :: "(pystr \<Rightarrow> 'f) \<Rightarrow> 'f pstate \<Rightarrow> token \<Rightarrow> 'f pstate option" where
  "step pf (SValue st) t = begin_value pf t st"
| "step pf (SArrStart st) t =
     (if t = TRBrack then Some (give_value (JArr []) st) else begin_value pf t (CArr [] # st))"
| "step pf (SObjStart st) t =
     (case t of
        TRBrace \<Rightarrow> Some (give_value (JObj []) st)
      | TStr k \<Rightarrow> Some (SColon [] k st)
      | _ \<Rightarrow> None)"
| "step pf (SKey ps st) t = (case t of TStr k \<Rightarrow> Some (SColon ps k st) | _ \<Rightarrow> None)"
| "step pf (SColon ps k st) t = (if t = TColon then Some (SValue (CObj ps k # st)) else None)"
| "step pf (SAfterArr vs st) t =
     (if t = TComma then Some (SValue (CArr vs # st))
      else if t = TRBrack then Some (give_value (JArr vs) st)
      else None)"
| "step pf (SAfterObj ps st) t =
     (if t = TComma then Some (SKey ps st)
      else if t = TRBrace then Some (give_value (JObj (mk_dict ps)) st)
      else None)"
| "step pf (SDone v) t = None"

fun run :: "(pystr \<Rightarrow> 'f) \<Rightarrow> 'f pstate \<Rightarrow> token list \<Rightarrow> 'f pstate option" where
  "run pf s [] = Some s"
| "run pf s (t # ts) = (case step pf s t of None \<Rightarrow> None | Some s' \<Rightarrow> run pf s' ts)"

definition json_loads :: "(pystr \<Rightarrow> 'f) \<Rightarrow> pystr \<Rightarrow> exn + 'f json" where
  "json_loads pf s =
     (case lex s of
        None \<Rightarrow> Inl JSONDecodeError
      | Some ts \<Rightarrow>
          (case run pf (SValue []) ts of
             Some (SDone v) \<Rightarrow> Inr v
           | _ \<Rightarrow> Inl JSONDecodeError))"

section \<open>\<open>json.dumps\<close>\<close>

definition hex_digit :: "nat \<Rightarrow> nat" where
  "hex_digit n = (if n < 10 then 48 + n else 87 + n)"

text \<open>\<open>ESCAPE_DCT\<close>, the replacements of \<open>encode_basestring\<close> (\<open>ensure_ascii=False\<close>).\<close>

definition escape_char :: "nat \<Rightarrow> pystr" where
  "escape_char c =
     (if c = 34 then [92, 34]
      else if c = 92 then [92, 92]
      else if c = 10 then [92, 110]
      else if c = 13 then [92, 114]
      else if c = 9 then [92, 116]
      else if c = 8 then [92, 98]
      else if c = 12 then [92, 102]
      else if c < 32 then [92, 117, 48, 48, hex_digit (c div 16), hex_digit (c mod 16)]
      else [c])"

definition encode_basestring :: "pystr \<Rightarrow> pystr" where
  "encode_basestring s = 34 # concat (map escape_char s) @ [34]"

function digits :: "nat \<Rightarrow> pystr" where
  "digits n = (if n < 10 then [48 + n] else digits (n div 10) @ [48 + n mod 10])"
  by pat_completeness auto
termination
  by (relation "measure id") auto

declare digits.simps [simp del]

text \<open>\<open>int.__repr__\<close>.\<close>

definition int_repr :: "int \<Rightarrow> pystr" where
  "int_repr i = (if i < 0 then 45 # digits (nat (- i)) else digits (nat i))"

text \<open>
  \<open>'\n' + ' ' * (indent * level)\<close> when an indent is given, and the item separator:
  \<open>','\<close> with an indent, \<open>', '\<close> without.
\<close>

definition newline_indent :: "nat option \<Rightarrow> nat \<Rightarrow> pystr" where
  "newline_indent ind lvl = (case ind of None \<Rightarrow> [] | Some n \<Rightarrow> 10 # replicate (n * lvl) 32)"

definition item_separator :: "nat option \<Rightarrow> pystr" where
  "item_separator ind = (case ind of None \<Rightarrow> [44, 32] | Some n \<Rightarrow> [44])"

text \<open>
  \<open>json.dumps(v, indent=ind, ensure_ascii=False)\<close> at nesting level \<open>lvl\<close>; \<open>fj\<close> is the
  text printed for a float.
\<close>

fun encode :: "('f \<Rightarrow> pystr) \<Rightarrow> nat option \<Rightarrow> nat \<Rightarrow> 'f json \<Rightarrow> pystr"
  and encode_list :: "('f \<Rightarrow> pystr) \<Rightarrow> nat option \<Rightarrow> nat \<Rightarrow> 'f json list \<Rightarrow> pystr"
  and encode_dict :: "('f \<Rightarrow> pystr) \<Rightarrow> nat option \<Rightarrow> nat \<Rightarrow> (pystr \<times> 'f json) list \<Rightarrow> pystr"
where
  "encode fj ind lvl JNull = str ''null''"
| "encode fj ind lvl (JBool b) = (if b then str ''true'' else str ''false'')"
| "encode fj ind lvl (JInt i) = int_repr i"
| "encode fj ind lvl (JFloat x) = fj x"
| "encode fj ind lvl (JStr s) = encode_basestring s"
| "encode fj ind lvl (JArr vs) =
     (if vs = [] then str ''[]''
      else 91 # newline_indent ind (Suc lvl) @ encode_list fj ind (Suc lvl) vs
             @ newline_indent ind lvl @ [93])"
| "encode fj ind lvl (JObj d) =
     (if d = [] then str ''{}''
      else 123 # newline_indent ind (Suc lvl) @ encode_dict fj ind (Suc lvl) d
             @ newline_indent ind lvl @ [125])"
| "encode_list fj ind lvl [] = []"
| "encode_list fj ind lvl (v # vs) =
     encode fj ind lvl v @
     (if vs = [] then [] else item_separator ind @ newline_indent ind lvl @ encode_list fj ind lvl vs)"
| "encode_dict fj ind lvl [] = []"
| "encode_dict fj ind lvl (kv # d) =
     encode_basestring (fst kv) @ [58, 32] @ encode fj ind lvl (snd kv) @
     (if d = [] then [] else item_separator ind @ newline_indent ind lvl @ encode_dict fj ind lvl d)"

definition json_dumps :: "('f \<Rightarrow> pystr) \<Rightarrow> nat option \<Rightarrow> 'f json \<Rightarrow> pystr" where
  "json_dumps fj ind v = encode fj ind 0 v"

section \<open>Classes of characters\<close>

text \<open>
  Structural characters and whitespace: no token but a string continues into them.
\<close>

definition delim :: "nat \<Rightarrow> bool" where
  "delim c \<longleftrightarrow> c = 44 \<or> c = 58 \<or> c = 91 \<or> c = 93 \<or> c = 123 \<or> c = 125 \<or> is_py_space c"

text \<open>A text that is empty or begins with such a character.\<close>

definition delim_head :: "pystr \<Rightarrow> bool" where
  "delim_head z \<longleftrightarrow> (case z of [] \<Rightarrow> True | c # r \<Rightarrow> delim c)"

text \<open>The characters the trimming of the fragment removes: whitespace and commas.\<close>

definition sep :: "nat \<Rightarrow> bool" where
  "sep c \<longleftrightarrow> is_py_space c \<or> c = 44"

section \<open>Printing and reading back\<close>

text \<open>
  The tokens of a value as \<open>json.dumps\<close> prints it, the floating-point numbers in
  it, and the value \<open>json.loads\<close> builds from those tokens: a float is read back from
  its text, and a dictionary is rebuilt from its pairs.  \<open>float_text t\<close>: the scanner
  reads the text \<open>t\<close> whole as one float token.
\<close>

definition float_text :: "pystr \<Rightarrow> bool" where
  "float_text t \<longleftrightarrow> scan_atom t = Some (TFloat t, [])"

fun floats :: "'f json \<Rightarrow> 'f list"
  and floats_list :: "'f json list \<Rightarrow> 'f list"
  and floats_dict :: "(pystr \<times> 'f json) list \<Rightarrow> 'f list"
where
  "floats JNull = []"
| "floats (JBool b) = []"
| "floats (JInt i) = []"
| "floats (JFloat x) = [x]"
| "floats (JStr s) = []"
| "floats (JArr vs) = floats_list vs"
| "floats (JObj d) = floats_dict d"
| "floats_list [] = []"
| "floats_list (v # vs) = floats v @ floats_list vs"
| "floats_dict [] = []"
| "floats_dict (kv # d) = floats (snd kv) @ floats_dict d"

fun toks :: "('f \<Rightarrow> pystr) \<Rightarrow> 'f json \<Rightarrow> token list"
  and toks_list :: "('f \<Rightarrow> pystr) \<Rightarrow> 'f json list \<Rightarrow> token list"
  and toks_dict :: "('f \<Rightarrow> pystr) \<Rightarrow> (pystr \<times> 'f json) list \<Rightarrow> token list"
where
  "toks fj JNull = [TNull]"
| "toks fj (JBool b) = [if b then TTrue else TFalse]"
| "toks fj (JInt i) = [TInt i]"
| "toks fj (JFloat x) = [TFloat (fj x)]"
| "toks fj (JStr s) = [TStr s]"
| "toks fj (JArr vs) = TLBrack # toks_list fj vs @ [TRBrack]"
| "toks fj (JObj d) = TLBrace # toks_dict fj d @ [TRBrace]"
| "toks_list fj [] = []"
| "toks_list fj (v # vs) = toks fj v @ (if vs = [] then [] else TComma # toks_list fj vs)"
| "toks_dict fj [] = []"
| "toks_dict fj (kv # d) =
     TStr (fst kv) # TColon # toks fj (snd kv) @ (if d = [] then [] else TComma # toks_dict fj d)"

fun reload :: "(pystr \<Rightarrow> 'f) \<Rightarrow> ('f \<Rightarrow> pystr) \<Rightarrow> 'f json \<Rightarrow> 'f json"
  and reload_list :: "(pystr \<Rightarrow> 'f) \<Rightarrow> ('f \<Rightarrow> pystr) \<Rightarrow> 'f json list \<Rightarrow> 'f json list"
  and reload_dict ::
    "(pystr \<Rightarrow> 'f) \<Rightarrow> ('f \<Rightarrow> pystr) \<Rightarrow> (pystr \<times> 'f json) list \<Rightarrow> (pystr \<times> 'f json) list"
where
  "reload pf fj JNull = JNull"
| "reload pf fj (JBool b) = JBool b"
| "reload pf fj (JInt i) = JInt i"
| "reload pf fj (JFloat x) = JFloat (pf (fj x))"
| "reload pf fj (JStr s) = JStr s"
| "reload pf fj (JArr vs) = JArr (reload_list pf fj vs)"
| "reload pf fj (JObj d) = JObj (mk_dict (reload_dict pf fj d))"
| "reload_list pf fj [] = []"
| "reload_list pf fj (v # vs) = reload pf fj v # reload_list pf fj vs"
| "reload_dict pf fj [] = []"
| "reload_dict pf fj (kv # d) = (fst kv, reload pf fj (snd kv)) # reload_dict pf fj d"

section \<open>The program's data\<close>

text \<open>The scraped paper handed to \<open>save_new_paper\<close>, and one question of it.\<close>

record question =
  origin :: pystr
  stem :: pystr

record ('f, 'z) question_page =
  name :: pystr
  province :: pystr
  grade :: pystr
  year :: pystr
  subject :: pystr
  page_id :: "'f json"
  stemlist :: "'z question_scheme list"

text \<open>The dictionary \<open>page_data_dict\<close> given to \<open>tomli_w.dump\<close>.\<close>

record 'f page_data =
  pd_name :: pystr
  pd_province :: pystr
  pd_grade :: pystr
  pd_year :: pystr
  pd_subject :: pystr
  pd_page_id :: "'f json"
  pd_stemlist :: "question list"

text \<open>The dictionary \<open>{"url": ..., "key": ...}\<close> returned by \<open>upload_to_cos\<close>.\<close>

record file_info =
  url :: pystr
  key :: pystr

section \<open>Effects\<close>

text \<open>What the program prints, one constructor for each \<open>print\<close> of the source.\<close>

datatype 'f msg =
    MsgStage1
  | MsgCredOk
  | MsgCredBad
  | MsgServerResponse "'f json"
  | MsgCredFailed exn
  | MsgStage2
  | MsgObjectKey pystr
  | MsgUploadOk
  | MsgFinalUrl pystr
  | MsgUploadFailed exn
  | MsgStage3
  | MsgNotifyOk
  | MsgNotifyFailed exn
  | MsgFileMissing pystr
  | MsgRule
  | MsgGotData
  | MsgNoData
  | MsgFinalResult pystr
  | MsgJsonError exn
  | MsgPayloadContent pystr
  | MsgSending pystr
  | MsgApiResponse pystr
  | MsgPaperId "'f json"
  | MsgSavedToml pystr
  | MsgRequestFailed
  | MsgErrorDetail "'f json"

text \<open>
  The calls the program makes on its collaborators, in order: the requests run in
  the page, the object-storage upload, the LLM call and the writes to the file
  system.  An event of a request, of the upload and of \<open>mkdir\<close> records the call,
  whatever comes of it.  \<open>EvOpenToml n\<close> records that \<open>output_toml/n.toml\<close> was opened
  for writing (created, or emptied); \<open>EvWriteToml n d\<close> records that \<open>tomli_w.dump\<close> has
  written the whole of \<open>d\<close> to it.
\<close>

datatype 'f event =
    EvPrint "'f msg"
  | EvCredentialRequest pystr
  | EvCosUpload "'f json" pystr pystr
  | EvNotifyRequest pystr pystr
  | EvAskLLM pystr
  | EvSubmit pystr
  | EvMkdir
  | EvOpenToml pystr
  | EvWriteToml pystr "'f page_data"

text \<open>
  The collaborators and the platform, as the program sees them in one run.  A call
  that may raise returns an \<open>exn\<close>; exceptions are instances of \<open>Exception\<close>.
  \<^item> \<open>py_float\<close>, \<open>float_json\<close>, \<open>float_bool\<close>: \<open>float(text)\<close>, the text \<open>json.dumps\<close>
    prints for a float, and the truth value of a float;
  \<^item> \<open>py_str\<close>: \<open>str(v)\<close> for a value that is not a \<open>str\<close>;
  \<^item> \<open>path_exists\<close>, \<open>path_basename\<close>: \<open>os.path.exists\<close>, \<open>os.path.basename\<close>;
  \<^item> \<open>uuid4\<close>: the text of the identifier \<open>uuid.uuid4()\<close> generates;
  \<^item> \<open>credential_fetch\<close>: \<open>page.evaluate\<close> of the credential request, by file name;
  \<^item> \<open>cos_client\<close>: \<open>CosS3Client(CosConfig(Region, SecretId, SecretKey, Token))\<close>;
  \<^item> \<open>cos_upload_file\<close>: \<open>client.upload_file(Bucket, LocalFilePath, Key)\<close>;
  \<^item> \<open>notify_fetch\<close>: \<open>page.evaluate\<close> of the notification, by file name and URL;
  \<^item> \<open>ask_llm_for_playload\<close>: the LLM call, by prompt;
  \<^item> \<open>save_fetch\<close>: \<open>tiku_page.evaluate\<close> of the paper creation, by request body;
  \<^item> \<open>mkdir_output\<close>: \<open>output_dir.mkdir(parents=True, exist_ok=True)\<close>;
  \<^item> \<open>toml_open\<close>: \<open>open(toml_path, 'wb')\<close>, by paper name;
  \<^item> \<open>toml_write\<close>: the writes of \<open>tomli_w.dump\<close> to the open file.
\<close>

record 'f env =
  py_float :: "pystr \<Rightarrow> 'f"
  float_json :: "'f \<Rightarrow> pystr"
  float_bool :: "'f \<Rightarrow> bool"
  py_str :: "'f json \<Rightarrow> pystr"
  path_exists :: "pystr \<Rightarrow> bool"
  path_basename :: "pystr \<Rightarrow> pystr"
  uuid4 :: pystr
  credential_fetch :: "pystr \<Rightarrow> exn + 'f json"
  cos_client :: "'f json \<Rightarrow> 'f json \<Rightarrow> 'f json \<Rightarrow> 'f json \<Rightarrow> exn option"
  cos_upload_file :: "'f json \<Rightarrow> pystr \<Rightarrow> pystr \<Rightarrow> exn option"
  notify_fetch :: "pystr \<Rightarrow> pystr \<Rightarrow> exn + 'f json"
  ask_llm_for_playload :: "pystr \<Rightarrow> exn + pystr"
  save_fetch :: "pystr \<Rightarrow> exn + 'f json"
  mkdir_output :: "exn option"
  toml_open :: "pystr \<Rightarrow> exn option"
  toml_write :: "pystr \<Rightarrow> 'f page_data \<Rightarrow> exn option"

text \<open>
  A computation yields the calls it made and either the exception it raised or
  its value.  \<open>bnd\<close> sequences two computations; an exception ends the sequence.
\<close>

type_synonym ('f, 'a) io = "'f event list \<times> (exn + 'a)"

definition bnd :: "('f, 'a) io \<Rightarrow> ('a \<Rightarrow> ('f, 'b) io) \<Rightarrow> ('f, 'b) io" where
  "bnd m f =
     (case m of
        (tr, Inl e) \<Rightarrow> (tr, Inl e)
      | (tr, Inr x) \<Rightarrow> (case f x of (tr', r) \<Rightarrow> (tr @ tr', r)))"

text \<open>A call that cannot raise.\<close>

definition total :: "'f event list \<times> 'a \<Rightarrow> ('f, 'a) io" where
  "total m = (case m of (tr, x) \<Rightarrow> (tr, Inr x))"

definition emit :: "'f event list \<Rightarrow> ('f, unit) io" where
  "emit evs = (evs, Inr ())"

definition lift :: "exn + 'a \<Rightarrow> ('f, 'a) io" where
  "lift r = ([], r)"

definition attempt :: "exn option \<Rightarrow> ('f, unit) io" where
  "attempt r = ([], case r of None \<Rightarrow> Inr () | Some e \<Rightarrow> Inl e)"

text \<open>A value inside an f-string.\<close>

definition fmt :: "'f env \<Rightarrow> 'f json \<Rightarrow> pystr" where
  "fmt E v = (case v of JStr s \<Rightarrow> s | _ \<Rightarrow> py_str E v)"

section \<open>The pipeline\<close>

text \<open>
  \<open>get_upload_credentials\<close> (lines 28 to 76).  The result is the \<open>data\<close> field of the
  response, or \<open>None\<close> (\<open>JNull\<close>); every exception is caught.
\<close>

definition get_upload_credentials :: "'f env \<Rightarrow> pystr \<Rightarrow> 'f event list \<times> 'f json" where
  "get_upload_credentials E filename =
     (let start = [EvPrint MsgStage1, EvCredentialRequest filename] in
      case credential_fetch E filename of
        Inl e \<Rightarrow> (start @ [EvPrint (MsgCredFailed e)], JNull)
      | Inr response_data \<Rightarrow>
          if \<not> truthy (float_bool E) response_data
          then (start @ [EvPrint MsgCredBad, EvPrint (MsgServerResponse response_data)], JNull)
          else
            (case py_get response_data (str ''success'') of
               Inl e \<Rightarrow> (start @ [EvPrint (MsgCredFailed e)], JNull)
             | Inr success \<Rightarrow>
                 if truthy (float_bool E) success
                 then (start @ [EvPrint MsgCredOk],
                       case py_get response_data (str ''data'') of Inl e \<Rightarrow> JNull | Inr d \<Rightarrow> d)
                 else (start @ [EvPrint MsgCredBad, EvPrint (MsgServerResponse response_data)],
                       JNull)))"

text \<open>The object key \<open>f"{key_prefix}/{uuid.uuid4()}/{filename}"\<close> (line 91).\<close>

definition object_key :: "pystr \<Rightarrow> pystr \<Rightarrow> pystr \<Rightarrow> pystr" where
  "object_key key_prefix uuid filename = key_prefix @ [47] @ uuid @ [47] @ filename"

text \<open>
  \<open>upload_to_cos\<close> (lines 78 to 102).  \<open>cos_prepare\<close> is the part before the \<open>try\<close>
  (lines 81 to 91): the lookups in the credential structure and the construction
  of the client, which raise to the caller; it gives the bucket and the object
  key.  Inside the \<open>try\<close>, an exception of the upload or of the \<open>cdnDomain\<close> lookup
  gives \<open>None\<close>.
\<close>

definition sbind :: "exn + 'a \<Rightarrow> ('a \<Rightarrow> exn + 'b) \<Rightarrow> exn + 'b" where
  "sbind r f = (case r of Inl e \<Rightarrow> Inl e | Inr x \<Rightarrow> f x)"

definition cos_prepare :: "'f env \<Rightarrow> 'f json \<Rightarrow> pystr \<Rightarrow> exn + ('f json \<times> pystr)" where
  "cos_prepare E credentials_data file_path =
     sbind (subscript credentials_data (str ''credentials'')) (\<lambda>creds.
     sbind (subscript credentials_data (str ''region'')) (\<lambda>region.
     sbind (subscript creds (str ''tmpSecretId'')) (\<lambda>secret_id.
     sbind (subscript creds (str ''tmpSecretKey'')) (\<lambda>secret_key.
     sbind (subscript creds (str ''sessionToken'')) (\<lambda>token.
     sbind (case cos_client E region secret_id secret_key token of
              None \<Rightarrow> Inr () | Some e \<Rightarrow> Inl e) (\<lambda>_.
     sbind (subscript credentials_data (str ''bucket'')) (\<lambda>bucket.
     sbind (subscript credentials_data (str ''keyPrefix'')) (\<lambda>key_prefix.
       Inr (bucket,
            object_key (fmt E key_prefix) (uuid4 E) (path_basename E file_path))))))))))"

definition upload_to_cos :: "'f env \<Rightarrow> 'f json \<Rightarrow> pystr \<Rightarrow> ('f, file_info option) io" where
  "upload_to_cos E credentials_data file_path =
     (case cos_prepare E credentials_data file_path of
        Inl e \<Rightarrow> ([EvPrint MsgStage2], Inl e)
      | Inr (bucket, okey) \<Rightarrow>
          (let start = [EvPrint MsgStage2, EvPrint (MsgObjectKey okey),
                        EvCosUpload bucket file_path okey] in
           case cos_upload_file E bucket file_path okey of
             Some e \<Rightarrow> (start @ [EvPrint (MsgUploadFailed e)], Inr None)
           | None \<Rightarrow>
               (case subscript credentials_data (str ''cdnDomain'') of
                  Inl e \<Rightarrow> (start @ [EvPrint (MsgUploadFailed e)], Inr None)
                | Inr cdn \<Rightarrow>
                    let final_url = str ''https://'' @ fmt E cdn @ [47] @ okey in
                      (start @ [EvPrint MsgUploadOk, EvPrint (MsgFinalUrl final_url)],
                       Inr (Some \<lparr>url = final_url, key = okey\<rparr>)))))"

text \<open>
  \<open>notify_application_server\<close> (lines 104 to 154): the raw response, or \<open>None\<close> when
  the request raises.
\<close>

definition notify_application_server ::
  "'f env \<Rightarrow> pystr \<Rightarrow> file_info \<Rightarrow> 'f event list \<times> 'f json" where
  "notify_application_server E filename info =
     (let start = [EvPrint MsgStage3, EvNotifyRequest filename (url info)] in
      case notify_fetch E filename (url info) of
        Inl e \<Rightarrow> (start @ [EvPrint (MsgNotifyFailed e)], JNull)
      | Inr response_data \<Rightarrow> (start @ [EvPrint MsgNotifyOk], response_data))"

text \<open>
  \<open>upload_pdf\<close> (lines 157 to 183): the text \<open>"attachments": \<close> followed by the
  indented serialization of the notification's \<open>data\<close>, or \<open>None\<close>.
  \<open>attachment_fragment\<close> is its last part (lines 173 to 183), which reads the
  notification's response.
\<close>

definition attachment_fragment :: "'f env \<Rightarrow> 'f json \<Rightarrow> ('f, pystr option) io" where
  "attachment_fragment E final_result =
     (if \<not> truthy (float_bool E) final_result then ([], Inr None)
      else
        (case final_result of
           JObj d \<Rightarrow>
             if truthy (float_bool E) (dict_get d (str ''success'')) \<and> py_contains d (str ''data'')
             then
               ([EvPrint MsgRule, EvPrint MsgGotData],
                Inr (Some (str ''\"attachments\": ''
                           @ json_dumps (float_json E) (Some 2) (dict_get d (str ''data'')))))
             else
               ([EvPrint MsgNoData,
                 EvPrint (MsgFinalResult (json_dumps (float_json E) (Some 2) final_result))],
                Inr None)
         | _ \<Rightarrow> ([], Inl AttributeError)))"

definition upload_pdf :: "'f env \<Rightarrow> pystr \<Rightarrow> ('f, pystr option) io" where
  "upload_pdf E file_path =
     (if \<not> path_exists E file_path then ([EvPrint (MsgFileMissing file_path)], Inr None)
      else
        let filename = path_basename E file_path in
          bnd (total (get_upload_credentials E filename)) (\<lambda>credentials.
            if \<not> truthy (float_bool E) credentials then ([], Inr None)
            else
              bnd (upload_to_cos E credentials file_path) (\<lambda>uploaded.
                case uploaded of
                  None \<Rightarrow> ([], Inr None)
                | Some info \<Rightarrow>
                    bnd (total (notify_application_server E filename info))
                      (attachment_fragment E))))"

text \<open>
  \<open>save_new_paper\<close> (lines 185 to 264), in three parts.  First the payload
  (lines 187 to 210): the LLM fragment, the attachment fragment of \<open>upload_pdf\<close>,
  the trimmed fragment parsed inside braces, the attachment entry set in the
  resulting dictionary, and its serialization.
\<close>

definition trim_payload :: "pystr \<Rightarrow> pystr" where
  "trim_payload payload = rstrip_by (\<lambda>c. c = 44) (rstrip_by is_py_space payload)"

definition merge_attachment ::
  "(pystr \<Rightarrow> 'f) \<Rightarrow> pystr option \<Rightarrow> 'f json \<Rightarrow> exn + 'f json" where
  "merge_attachment pf parcial_payload payload_dict =
     (case parcial_payload of
        None \<Rightarrow> Inr payload_dict
      | Some pp \<Rightarrow>
          if pp = [] then Inr payload_dict
          else
            (case split_first 58 pp of
               [k, v] \<Rightarrow>
                 (case json_loads pf v of
                    Inl e \<Rightarrow> Inl e
                  | Inr val \<Rightarrow>
                      setitem payload_dict
                        (strip_by (\<lambda>c. c = 34) (strip_by is_py_space k)) val)
             | _ \<Rightarrow> Inr payload_dict))"

text \<open>The path \<open>f"PDF/{question_page.name}.pdf"\<close> (line 188).\<close>

definition pdf_path :: "('f, 'z) question_page \<Rightarrow> pystr" where
  "pdf_path qp = str ''PDF/'' @ name qp @ str ''.pdf''"

definition llm_prompt :: "('f, 'z) question_page \<Rightarrow> pystr" where
  "llm_prompt qp =
     str ''$Question_name: '' @ name qp @ str '' + Subject: '' @ subject qp
       @ str '' + Province: '' @ province qp"

definition assemble :: "'f env \<Rightarrow> ('f, 'z) question_page \<Rightarrow> ('f, pystr) io" where
  "assemble E qp =
     bnd ([EvAskLLM (llm_prompt qp)], ask_llm_for_playload E (llm_prompt qp)) (\<lambda>fragment.
     bnd (upload_pdf E (pdf_path qp)) (\<lambda>parcial_payload.
       let payload = trim_payload fragment in
         (case json_loads (py_float E) ([123] @ payload @ [125]) of
            Inl e \<Rightarrow> ([EvPrint (MsgJsonError e), EvPrint (MsgPayloadContent payload)], Inl e)
          | Inr payload_dict \<Rightarrow>
              bnd (lift (merge_attachment (py_float E) parcial_payload payload_dict)) (\<lambda>merged.
                ([], Inr (json_dumps (float_json E) None merged))))))"

text \<open>The request to the paper-creation endpoint (lines 212 to 235).\<close>

definition submit :: "'f env \<Rightarrow> pystr \<Rightarrow> ('f, 'f json) io" where
  "submit E payload_json =
     bnd ([EvPrint (MsgSending payload_json), EvSubmit payload_json], save_fetch E payload_json)
       (\<lambda>result.
          ([EvPrint (MsgApiResponse (json_dumps (float_json E) (Some 2) result))], Inr result))"

text \<open>
  The outcome (lines 237 to 264): on success the page takes the identifier, the
  directory is made, the file is opened and the record is dumped into it; an
  exception of any of these leaves the function.  The page is returned as the run
  leaves it.
\<close>

definition page_data_dict :: "('f, 'z) question_page \<Rightarrow> ('f \<Rightarrow> bool) \<Rightarrow> 'f page_data" where
  "page_data_dict qp fb =
     \<lparr>pd_name = name qp,
      pd_province = province qp,
      pd_grade = grade qp,
      pd_year = year qp,
      pd_subject = subject qp,
      pd_page_id = (if truthy fb (page_id qp) then page_id qp else JNull),
      pd_stemlist = map (\<lambda>q. \<lparr>origin = origin q, stem = stem q\<rparr>) (stemlist qp)\<rparr>"

text \<open>
  \<open>tomli_w.dump\<close> (line 256) formats the values of the dictionary one after the
  other and raises \<open>TypeError\<close> at a value that TOML cannot hold: \<open>None\<close>, on its own or
  inside a list or a dictionary.  The other fields of \<open>page_data_dict\<close> are strings
  and a list of dictionaries of strings; \<open>page_id\<close> is whatever the response held.
\<close>

fun toml_value :: "'f json \<Rightarrow> bool"
  and toml_values :: "'f json list \<Rightarrow> bool"
  and toml_items :: "(pystr \<times> 'f json) list \<Rightarrow> bool" where
  "toml_value JNull = False"
| "toml_value (JBool b) = True"
| "toml_value (JInt i) = True"
| "toml_value (JFloat x) = True"
| "toml_value (JStr s) = True"
| "toml_value (JArr vs) = toml_values vs"
| "toml_value (JObj d) = toml_items d"
| "toml_values [] = True"
| "toml_values (v # vs) = (toml_value v \<and> toml_values vs)"
| "toml_items [] = True"
| "toml_items (kv # d) = (toml_value (snd kv) \<and> toml_items d)"

definition tomli_w_dump :: "'f env \<Rightarrow> pystr \<Rightarrow> 'f page_data \<Rightarrow> ('f, unit) io" where
  "tomli_w_dump E n d =
     (if toml_value (pd_page_id d)
      then bnd (attempt (toml_write E n d)) (\<lambda>_. emit [EvWriteToml n d])
      else ([], Inl TypeError))"

definition persist ::
  "'f env \<Rightarrow> ('f, 'z) question_page \<Rightarrow> 'f json
     \<Rightarrow> 'f event list \<times> ('f, 'z) question_page \<times> (exn + 'f json)" where
  "persist E qp result =
     (if \<not> truthy (float_bool E) result then ([EvPrint MsgRequestFailed], qp, Inr JNull)
      else
        (case py_get result (str ''success'') of
           Inl e \<Rightarrow> ([], qp, Inl e)
         | Inr success \<Rightarrow>
             if truthy (float_bool E) success then
               (let paper_id = (case py_get result (str ''data'') of Inl e \<Rightarrow> JNull | Inr d \<Rightarrow> d);
                    qp' = qp\<lparr>page_id := paper_id\<rparr>
                in
                  case
                    bnd ([EvPrint (MsgPaperId paper_id), EvMkdir], Inr ()) (\<lambda>_.
                    bnd (attempt (mkdir_output E)) (\<lambda>_.
                    bnd (attempt (toml_open E (name qp'))) (\<lambda>_.
                    bnd (emit [EvOpenToml (name qp')]) (\<lambda>_.
                    bnd (tomli_w_dump E (name qp') (page_data_dict qp' (float_bool E)))
                      (\<lambda>_. ([EvPrint (MsgSavedToml (name qp'))], Inr paper_id))))))
                  of (tr, r) \<Rightarrow> (tr, qp', r))
             else ([EvPrint MsgRequestFailed, EvPrint (MsgErrorDetail result)], qp, Inr JNull)))"

definition save_new_paper ::
  "'f env \<Rightarrow> ('f, 'z) question_page
     \<Rightarrow> 'f event list \<times> ('f, 'z) question_page \<times> (exn + 'f json)" where
  "save_new_paper E qp =
     (case bnd (assemble E qp) (submit E) of
        (tr, Inl e) \<Rightarrow> (tr, qp, Inl e)
      | (tr, Inr result) \<Rightarrow>
          (case persist E qp result of (tr', qp', r) \<Rightarrow> (tr @ tr', qp', r)))"

section \<open>Reading a trace\<close>

datatype kind = KPrint | KCredential | KCosUpload | KNotify | KAskLLM | KSubmit | KMkdir | KOpen | KWrite

fun kind_of :: "'f event \<Rightarrow> kind" where
  "kind_of (EvPrint m) = KPrint"
| "kind_of (EvCredentialRequest f) = KCredential"
| "kind_of (EvCosUpload b p k) = KCosUpload"
| "kind_of (EvNotifyRequest f u) = KNotify"
| "kind_of (EvAskLLM p) = KAskLLM"
| "kind_of (EvSubmit b) = KSubmit"
| "kind_of (EvMkdir) = KMkdir"
| "kind_of (EvOpenToml n) = KOpen"
| "kind_of (EvWriteToml n d) = KWrite"

text \<open>The kinds of call made in a trace; \<open>within K tr\<close>: every call of \<open>tr\<close> is of a kind in \<open>K\<close>.\<close>

definition kinds :: "'f event list \<Rightarrow> kind list" where
  "kinds tr = remdups (map kind_of tr)"

definition within :: "kind set \<Rightarrow> 'f event list \<Rightarrow> bool" where
  "within K tr \<longleftrightarrow> kind_of ` set tr \<subseteq> K"

fun written_records :: "'f event list \<Rightarrow> 'f page_data list" where
  "written_records [] = []"
| "written_records (EvWriteToml n d # evs) = d # written_records evs"
| "written_records (_ # evs) = written_records evs"

section \<open>A sample run\<close>

text \<open>
  The end-to-end scenario of the specification: every collaborator succeeds.
  Floats are represented by their text.
\<close>

definition posix_basename :: "pystr \<Rightarrow> pystr" where
  "posix_basename p = rev (takeWhile (\<lambda>c. c \<noteq> 47) (rev p))"

definition demo_credentials :: "pystr json" where
  "demo_credentials =
     JObj [(str ''region'', JStr (str ''ap-x'')),
           (str ''bucket'', JStr (str ''b1'')),
           (str ''keyPrefix'', JStr (str ''p'')),
           (str ''cdnDomain'', JStr (str ''cdn.example.com'')),
           (str ''credentials'',
              JObj [(str ''tmpSecretId'', JStr (str ''id'')),
                    (str ''tmpSecretKey'', JStr (str ''key'')),
                    (str ''sessionToken'', JStr (str ''tok''))])]"

definition demo_uuid :: pystr where
  "demo_uuid = str ''123e4567-e89b-42d3-a456-426614174000''"

definition demo_credential_response :: "pystr json" where
  "demo_credential_response = JObj [(str ''success'', JBool True), (str ''data'', demo_credentials)]"

definition demo_fragment :: pystr where
  "demo_fragment = str ''\"paperName\": \"Test2024\", \"year\": 2024,''"

definition demo_response :: "pystr json" where
  "demo_response = JObj [(str ''success'', JBool True), (str ''data'', JStr (str ''PID-123''))]"

text \<open>
  A run is fixed by the identifier generated, the answer to the credential
  request, the outcome of the upload, the answer of the LLM and the answer to the
  paper creation; the notification echoes the file name and the URL.
\<close>

definition scenario ::
  "pystr \<Rightarrow> exn + pystr json \<Rightarrow> exn option \<Rightarrow> exn + pystr \<Rightarrow> exn + pystr json \<Rightarrow> pystr env" where
  "scenario u cred up frag resp =
     \<lparr>py_float = (\<lambda>t. t),
      float_json = (\<lambda>x. x),
      float_bool = (\<lambda>x. x \<noteq> str ''0.0'' \<and> x \<noteq> str ''-0.0''),
      py_str = json_dumps (\<lambda>x. x) None,
      path_exists = (\<lambda>p. True),
      path_basename = posix_basename,
      uuid4 = u,
      credential_fetch = (\<lambda>f. cred),
      cos_client = (\<lambda>region secret_id secret_key token. None),
      cos_upload_file = (\<lambda>bucket path k. up),
      notify_fetch =
        (\<lambda>f u. Inr (JObj [(str ''success'', JBool True),
                          (str ''data'', JArr [JObj [(str ''fileName'', JStr f),
                                                     (str ''fileUrl'', JStr u)]])])),
      ask_llm_for_playload = (\<lambda>prompt. frag),
      save_fetch = (\<lambda>body. resp),
      mkdir_output = None,
      toml_open = (\<lambda>n. None),
      toml_write = (\<lambda>n d. None)\<rparr>"

definition demo_env :: "pystr env" where
  "demo_env =
     scenario demo_uuid (Inr demo_credential_response) None (Inr demo_fragment) (Inr demo_response)"

text \<open>The file information and the notification data of a run of \<open>scenario\<close>.\<close>

definition demo_info :: "pystr \<Rightarrow> pystr \<Rightarrow> file_info" where
  "demo_info u fp =
     \<lparr>url = str ''https://cdn.example.com/'' @ object_key (str ''p'') u (posix_basename fp),
      key = object_key (str ''p'') u (posix_basename fp)\<rparr>"

definition demo_data :: "pystr \<Rightarrow> pystr \<Rightarrow> pystr json" where
  "demo_data u fp =
     JArr [JObj [(str ''fileName'', JStr (posix_basename fp)),
                 (str ''fileUrl'', JStr (url (demo_info u fp)))]]"

definition demo_page :: "(pystr, unit) question_page" where
  "demo_page =
     \<lparr>name = str ''Test2024'', province = str ''Beijing'', grade = str ''9'',
      year = str ''2024'', subject = str ''Math'', page_id = JNull,
      stemlist = [\<lparr>origin = str ''Q1'', stem = str ''2+2=?''\<rparr>]\<rparr>"

text \<open>Variants of the run: the upload raises; the credential request is refused; the
  paper-creation answer carries the identifier 0; the LLM fragment is malformed.\<close>

definition failing_upload_env :: "pystr env" where
  "failing_upload_env =
     scenario demo_uuid (Inr demo_credential_response) (Some (External 1))
       (Inr demo_fragment) (Inr demo_response)"

definition no_credentials_env :: "pystr env" where
  "no_credentials_env =
     scenario demo_uuid (Inr (JObj [(str ''success'', JBool False)])) None
       (Inr demo_fragment) (Inr demo_response)"

definition zero_id_env :: "pystr env" where
  "zero_id_env =
     scenario demo_uuid (Inr demo_credential_response) None (Inr demo_fragment)
       (Inr (JObj [(str ''success'', JBool True), (str ''data'', JInt 0)]))"

definition bad_fragment_env :: "pystr env" where
  "bad_fragment_env =
     scenario demo_uuid (Inr demo_credential_response) None (Inr (str ''\"a\" 1''))
       (Inr demo_response)"

text \<open>
  Two credential structures that lack one field each: \<open>keyPrefix\<close>, read before
  the \<open>try\<close> of \<open>upload_to_cos\<close>, and \<open>cdnDomain\<close>, read inside it.
\<close>

definition no_prefix_credentials :: "pystr json" where
  "no_prefix_credentials =
     JObj [(str ''region'', JStr (str ''ap-x'')),
           (str ''bucket'', JStr (str ''b1'')),
           (str ''cdnDomain'', JStr (str ''cdn.example.com'')),
           (str ''credentials'',
              JObj [(str ''tmpSecretId'', JStr (str ''id'')),
                    (str ''tmpSecretKey'', JStr (str ''key'')),
                    (str ''sessionToken'', JStr (str ''tok''))])]"

definition no_cdn_credentials :: "pystr json" where
  "no_cdn_credentials =
     JObj [(str ''region'', JStr (str ''ap-x'')),
           (str ''bucket'', JStr (str ''b1'')),
           (str ''keyPrefix'', JStr (str ''p'')),
           (str ''credentials'',
              JObj [(str ''tmpSecretId'', JStr (str ''id'')),
                    (str ''tmpSecretKey'', JStr (str ''key'')),
                    (str ''sessionToken'', JStr (str ''tok''))])]"

definition no_prefix_env :: "pystr env" where
  "no_prefix_env =
     scenario demo_uuid
       (Inr (JObj [(str ''success'', JBool True), (str ''data'', no_prefix_credentials)]))
       None (Inr demo_fragment) (Inr demo_response)"

definition no_cdn_env :: "pystr env" where
  "no_cdn_env =
     scenario demo_uuid
       (Inr (JObj [(str ''success'', JBool True), (str ''data'', no_cdn_credentials)]))
       None (Inr demo_fragment) (Inr demo_response)"

definition demo_payload :: "pystr json" where
  "demo_payload = JObj [(str ''paperName'', JStr (str ''Test2024'')), (str ''year'', JInt 2024)]"

definition demo_merged :: "pystr json" where
  "demo_merged =
     JObj [(str ''paperName'', JStr (str ''Test2024'')), (str ''year'', JInt 2024),
           (str ''attachments'', demo_data demo_uuid (pdf_path demo_page))]"

chapter \<open>Properties\<close>

section \<open>Traces of the stages\<close>

lemma set_kinds: "set (kinds tr) = kind_of ` set tr"
  by (simp add: kinds_def)

lemma within_Nil: "within K []"
  by (simp add: within_def)

lemma within_Cons: "within K (ev # tr) \<longleftrightarrow> kind_of ev \<in> K \<and> within K tr"
  by (simp add: within_def)

lemma within_append: "within K (tr @ tr') \<longleftrightarrow> within K tr \<and> within K tr'"
  by (auto simp: within_def)

lemma within_mono: "within K tr \<Longrightarrow> K \<subseteq> K' \<Longrightarrow> within K' tr"
  by (auto simp: within_def)

lemma within_kinds: "within K tr \<Longrightarrow> k \<notin> K \<Longrightarrow> k \<notin> set (kinds tr)"
  by (auto simp: within_def set_kinds)

lemma bnd_Inl: "bnd (tr, Inl e) f = (tr, Inl e)"
  by (simp add: bnd_def)

lemma bnd_Inr: "bnd (tr, Inr x) f = (tr @ fst (f x), snd (f x))"
  by (simp add: bnd_def split: prod.splits)

lemma within_bnd:
  assumes "within K (fst m)" and "\<And>x. within K (fst (f x))"
  shows "within K (fst (bnd m f))"
proof (cases m)
  case (Pair tr r)
  with assms show ?thesis
    by (cases r) (simp_all add: bnd_Inl bnd_Inr within_append)
qed

lemma within_total: "within K (fst m) \<Longrightarrow> within K (fst (total m))"
  by (cases m) (simp add: total_def)

lemma credentials_kinds: "within {KPrint, KCredential} (fst (get_upload_credentials E f))"
  by (simp add: get_upload_credentials_def Let_def within_Cons within_Nil split: sum.splits)

lemma cos_kinds: "within {KPrint, KCosUpload} (fst (upload_to_cos E c fp))"
  by (simp add: upload_to_cos_def Let_def within_Cons within_Nil
      split: sum.splits option.splits prod.splits)

lemma notify_kinds: "within {KPrint, KNotify} (fst (notify_application_server E f i))"
  by (simp add: notify_application_server_def Let_def within_Cons within_Nil split: sum.splits)

lemma fragment_kinds: "within {KPrint} (fst (attachment_fragment E r))"
  by (simp add: attachment_fragment_def within_Cons within_Nil split: json.splits)

lemma upload_pdf_kinds:
  "within {KPrint, KCredential, KCosUpload, KNotify} (fst (upload_pdf E fp))"
  (is "within ?K _")
proof -
  have a: "within ?K (fst (total (get_upload_credentials E f)))" for f
    by (rule within_total, rule within_mono[OF credentials_kinds]) simp
  have b: "within ?K (fst (upload_to_cos E c fp))" for c
    by (rule within_mono[OF cos_kinds]) simp
  have c: "within ?K (fst (total (notify_application_server E f i)))" for f i
    by (rule within_total, rule within_mono[OF notify_kinds]) simp
  have d: "within ?K (fst (attachment_fragment E r))" for r
    by (rule within_mono[OF fragment_kinds]) simp
  have e: "within ?K
             (fst (case uploaded of
                     None \<Rightarrow> ([], Inr None)
                   | Some info \<Rightarrow>
                       bnd (total (notify_application_server E f info))
                         (attachment_fragment E)))" for uploaded f
    by (cases uploaded) (simp_all add: within_bnd[OF c d] within_Nil)
  have f: "within ?K
             (fst (if \<not> truthy (float_bool E) credentials then ([], Inr None)
                   else bnd (upload_to_cos E credentials fp) (\<lambda>uploaded.
                          case uploaded of
                            None \<Rightarrow> ([], Inr None)
                          | Some info \<Rightarrow>
                              bnd (total (notify_application_server E g info))
                                (attachment_fragment E))))" for credentials g
    by (simp add: within_Nil within_bnd[OF b e])
  show ?thesis
    unfolding upload_pdf_def Let_def
    by (simp add: within_Cons within_Nil within_bnd[OF a f])
qed

text \<open>Without credentials, \<open>upload_pdf\<close> stops after the credential request.\<close>

lemma upload_pdf_no_credentials:
  assumes "path_exists E fp"
    and "\<not> truthy (float_bool E) (snd (get_upload_credentials E (path_basename E fp)))"
  shows "upload_pdf E fp = (fst (get_upload_credentials E (path_basename E fp)), Inr None)"
  using assms
  by (cases "get_upload_credentials E (path_basename E fp)")
     (simp add: upload_pdf_def total_def bnd_Inr)

lemma upload_pdf_missing:
  "\<not> path_exists E fp \<Longrightarrow> upload_pdf E fp = ([EvPrint (MsgFileMissing fp)], Inr None)"
  by (simp add: upload_pdf_def)

text \<open>The later stages make no request of the attachment stages.\<close>

lemma submit_kinds: "within {KPrint, KSubmit} (fst (submit E body))"
  by (cases "save_fetch E body")
     (simp_all add: submit_def bnd_Inl bnd_Inr within_Cons within_Nil)

lemma tomli_w_dump_kinds: "within {KWrite} (fst (tomli_w_dump E n d))"
  by (cases "toml_write E n d")
     (simp_all add: tomli_w_dump_def bnd_Inl bnd_Inr attempt_def emit_def within_Cons within_Nil)

lemma persist_kinds: "within {KPrint, KMkdir, KOpen, KWrite} (fst (persist E qp r))"
proof -
  let ?qp = "qp\<lparr>page_id := case py_get r (str ''data'') of Inl e \<Rightarrow> JNull | Inr d \<Rightarrow> d\<rparr>"
  let ?d = "tomli_w_dump E (name qp) (page_data_dict ?qp (float_bool E))"
  have w: "within {KPrint, KMkdir, KOpen, KWrite} (fst ?d)"
    by (rule within_mono[OF tomli_w_dump_kinds]) simp
  obtain tr x where d: "?d = (tr, x)" by (cases ?d)
  with w have "within {KPrint, KMkdir, KOpen, KWrite} tr" by simp
  with d show ?thesis
    by (cases "mkdir_output E"; cases "toml_open E (name qp)"; cases x)
       (simp_all add: persist_def Let_def bnd_Inl bnd_Inr attempt_def emit_def within_Cons
          within_Nil within_append split: sum.splits)
qed

section \<open>The object uploader\<close>

lemma cos_prepare_Inr:
  "cos_prepare E c fp = Inr (b, k) \<longleftrightarrow>
     (\<exists>creds region sid skey tok kp.
        subscript c (str ''credentials'') = Inr creds \<and>
        subscript c (str ''region'') = Inr region \<and>
        subscript creds (str ''tmpSecretId'') = Inr sid \<and>
        subscript creds (str ''tmpSecretKey'') = Inr skey \<and>
        subscript creds (str ''sessionToken'') = Inr tok \<and>
        cos_client E region sid skey tok = None \<and>
        subscript c (str ''bucket'') = Inr b \<and>
        subscript c (str ''keyPrefix'') = Inr kp \<and>
        k = object_key (fmt E kp) (uuid4 E) (path_basename E fp))"
  unfolding cos_prepare_def sbind_def
  by (auto split: sum.splits option.splits)

lemma upload_to_cos_prepared:
  assumes "cos_prepare E c fp = Inr (b, k)"
  shows "upload_to_cos E c fp =
           (case cos_upload_file E b fp k of
              Some e \<Rightarrow>
                ([EvPrint MsgStage2, EvPrint (MsgObjectKey k), EvCosUpload b fp k,
                  EvPrint (MsgUploadFailed e)], Inr None)
            | None \<Rightarrow>
                (case subscript c (str ''cdnDomain'') of
                   Inl e \<Rightarrow>
                     ([EvPrint MsgStage2, EvPrint (MsgObjectKey k), EvCosUpload b fp k,
                       EvPrint (MsgUploadFailed e)], Inr None)
                 | Inr cdn \<Rightarrow>
                     ([EvPrint MsgStage2, EvPrint (MsgObjectKey k), EvCosUpload b fp k,
                       EvPrint MsgUploadOk,
                       EvPrint (MsgFinalUrl (str ''https://'' @ fmt E cdn @ [47] @ k))],
                      Inr (Some \<lparr>url = str ''https://'' @ fmt E cdn @ [47] @ k, key = k\<rparr>))))"
  using assms by (simp add: upload_to_cos_def Let_def split: option.splits sum.splits)

lemma upload_to_cos_raised:
  "cos_prepare E c fp = Inl e \<Longrightarrow> upload_to_cos E c fp = ([EvPrint MsgStage2], Inl e)"
  by (simp add: upload_to_cos_def)

lemma uploaded_key:
  assumes "snd (upload_to_cos E c fp) = Inr (Some i)"
  shows "\<exists>kp. key i = object_key kp (uuid4 E) (path_basename E fp)"
proof (cases "cos_prepare E c fp")
  case (Inl e)
  with assms show ?thesis by (simp add: upload_to_cos_raised)
next
  case (Inr bk)
  then obtain b k where bk: "cos_prepare E c fp = Inr (b, k)" by (cases bk) simp
  from bk obtain kp where k: "k = object_key kp (uuid4 E) (path_basename E fp)"
    unfolding cos_prepare_Inr by blast
  from assms have "key i = k"
    by (auto simp: upload_to_cos_prepared[OF bk] split: option.splits sum.splits)
  with k show ?thesis by blast
qed

lemma object_key_inject:
  assumes "object_key kp1 u1 f = object_key kp2 u2 f" and "length u1 = length u2"
  shows "u1 = u2"
proof -
  from assms(1) have "(kp1 @ [47]) @ u1 = (kp2 @ [47]) @ u2"
    by (simp add: object_key_def)
  with assms(2) append_eq_append_conv[of "kp1 @ [47]" "kp2 @ [47]" u1 u2]
  show ?thesis by simp
qed

text \<open>
  Claim C7.  Two uploads of files with the same file name, with distinct generated
  identifiers (each the 36 characters of a UUID), return distinct object keys.
\<close>

theorem object_keys_differ:
  assumes "snd (upload_to_cos E1 c1 fp1) = Inr (Some i1)"
    and "snd (upload_to_cos E2 c2 fp2) = Inr (Some i2)"
    and "path_basename E1 fp1 = path_basename E2 fp2"
    and "length (uuid4 E1) = 36" and "length (uuid4 E2) = 36"
    and "uuid4 E1 \<noteq> uuid4 E2"
  shows "key i1 \<noteq> key i2"
proof
  assume eq: "key i1 = key i2"
  from uploaded_key[OF assms(1)] obtain kp1
    where k1: "key i1 = object_key kp1 (uuid4 E1) (path_basename E1 fp1)" by blast
  from uploaded_key[OF assms(2)] obtain kp2
    where k2: "key i2 = object_key kp2 (uuid4 E2) (path_basename E2 fp2)" by blast
  from eq k1 k2 assms(3)
  have "object_key kp1 (uuid4 E1) (path_basename E2 fp2)
          = object_key kp2 (uuid4 E2) (path_basename E2 fp2)" by simp
  then have "uuid4 E1 = uuid4 E2"
    by (rule object_key_inject) (simp add: assms(4,5))
  with assms(6) show False by contradiction
qed

lemma scenario_prepare:
  "cos_prepare (scenario u cred up frag resp) demo_credentials fp
     = Inr (JStr (str ''b1''), key (demo_info u fp))"
  by (simp add: cos_prepare_def sbind_def subscript_def demo_credentials_def scenario_def
      demo_info_def fmt_def str_def)

lemma scenario_upload:
  "upload_to_cos (scenario u cred None frag resp) demo_credentials fp
     = ([EvPrint MsgStage2,
         EvPrint (MsgObjectKey (key (demo_info u fp))),
         EvCosUpload (JStr (str ''b1'')) fp (key (demo_info u fp)),
         EvPrint MsgUploadOk,
         EvPrint (MsgFinalUrl (url (demo_info u fp)))],
        Inr (Some (demo_info u fp)))"
  by (simp add: upload_to_cos_prepared[OF scenario_prepare])
     (simp add: scenario_def subscript_def demo_credentials_def demo_info_def fmt_def str_def)

theorem object_keys_differ_witness:
  "snd (upload_to_cos demo_env demo_credentials (str ''PDF/Test2024.pdf''))
     = Inr (Some (demo_info demo_uuid (str ''PDF/Test2024.pdf'')))
   \<and> snd (upload_to_cos
          (scenario (str ''9b2f0c1a-7d4e-4f6a-8b3c-5e1d2a3b4c5d'') (Inr demo_credential_response)
             None (Inr demo_fragment) (Inr demo_response))
          demo_credentials (str ''PDF/Test2024.pdf''))
     = Inr (Some (demo_info (str ''9b2f0c1a-7d4e-4f6a-8b3c-5e1d2a3b4c5d'') (str ''PDF/Test2024.pdf'')))
   \<and> key (demo_info demo_uuid (str ''PDF/Test2024.pdf''))
     \<noteq> key (demo_info (str ''9b2f0c1a-7d4e-4f6a-8b3c-5e1d2a3b4c5d'') (str ''PDF/Test2024.pdf''))"
proof -
  let ?E2 = "scenario (str ''9b2f0c1a-7d4e-4f6a-8b3c-5e1d2a3b4c5d'') (Inr demo_credential_response)
               None (Inr demo_fragment) (Inr demo_response)"
  let ?fp = "str ''PDF/Test2024.pdf''"
  have a: "snd (upload_to_cos demo_env demo_credentials ?fp)
             = Inr (Some (demo_info demo_uuid ?fp))"
    by (simp add: demo_env_def scenario_upload)
  have b: "snd (upload_to_cos ?E2 demo_credentials ?fp)
             = Inr (Some (demo_info (str ''9b2f0c1a-7d4e-4f6a-8b3c-5e1d2a3b4c5d'') ?fp))"
    by (simp add: scenario_upload)
  have c: "path_basename demo_env ?fp = path_basename ?E2 ?fp"
    by (simp add: demo_env_def scenario_def)
  have d: "length (uuid4 demo_env) = 36" "length (uuid4 ?E2) = 36" "uuid4 demo_env \<noteq> uuid4 ?E2"
    by (simp_all add: demo_env_def scenario_def demo_uuid_def str_def)
  from a b object_keys_differ[OF a b c d] show ?thesis by simp
qed

text \<open>
  Claim C8.  For a credential structure that has the fields read before the upload,
  \<open>upload_to_cos\<close> uploads under the object key \<open>{keyPrefix}/{uuid}/{filename}\<close>, the
  file name being the base name of the path; when the upload succeeds it returns the
  URL \<open>https://{cdnDomain}/{objectKey}\<close> and that key.
\<close>

theorem upload_to_cos_success:
  assumes "subscript c (str ''credentials'') = Inr creds"
    and "subscript c (str ''region'') = Inr region"
    and "subscript creds (str ''tmpSecretId'') = Inr secret_id"
    and "subscript creds (str ''tmpSecretKey'') = Inr secret_key"
    and "subscript creds (str ''sessionToken'') = Inr token"
    and "cos_client E region secret_id secret_key token = None"
    and "subscript c (str ''bucket'') = Inr bucket"
    and "subscript c (str ''keyPrefix'') = Inr key_prefix"
    and "subscript c (str ''cdnDomain'') = Inr cdn"
    and "okey = fmt E key_prefix @ str ''/'' @ uuid4 E @ str ''/'' @ path_basename E fp"
    and "cos_upload_file E bucket fp okey = None"
  shows "upload_to_cos E c fp =
           ([EvPrint MsgStage2, EvPrint (MsgObjectKey okey), EvCosUpload bucket fp okey,
             EvPrint MsgUploadOk, EvPrint (MsgFinalUrl (str ''https://'' @ fmt E cdn @ str ''/'' @ okey))],
            Inr (Some \<lparr>url = str ''https://'' @ fmt E cdn @ str ''/'' @ okey, key = okey\<rparr>))"
proof -
  have k: "okey = object_key (fmt E key_prefix) (uuid4 E) (path_basename E fp)"
    using assms(10) by (simp add: object_key_def str_def)
  have "cos_prepare E c fp = Inr (bucket, okey)"
    unfolding cos_prepare_Inr using assms(1-8) k by blast
  from upload_to_cos_prepared[OF this] assms(9,11) show ?thesis
    by (simp add: str_def)
qed

theorem upload_to_cos_success_witness:
  "upload_to_cos demo_env demo_credentials (str ''PDF/Test2024.pdf'') =
     ([EvPrint MsgStage2,
       EvPrint (MsgObjectKey (str ''p/123e4567-e89b-42d3-a456-426614174000/Test2024.pdf'')),
       EvCosUpload (JStr (str ''b1'')) (str ''PDF/Test2024.pdf'')
         (str ''p/123e4567-e89b-42d3-a456-426614174000/Test2024.pdf''),
       EvPrint MsgUploadOk,
       EvPrint (MsgFinalUrl
         (str ''https://cdn.example.com/p/123e4567-e89b-42d3-a456-426614174000/Test2024.pdf''))],
      Inr (Some
        \<lparr>url = str ''https://cdn.example.com/p/123e4567-e89b-42d3-a456-426614174000/Test2024.pdf'',
         key = str ''p/123e4567-e89b-42d3-a456-426614174000/Test2024.pdf''\<rparr>))"
proof -
  let ?creds = "JObj [(str ''tmpSecretId'', JStr (str ''id'')),
                      (str ''tmpSecretKey'', JStr (str ''key'')),
                      (str ''sessionToken'', JStr (str ''tok''))] :: pystr json"
  have 1: "subscript demo_credentials (str ''credentials'') = Inr ?creds"
    and 2: "subscript demo_credentials (str ''region'') = Inr (JStr (str ''ap-x''))"
    and 3: "subscript ?creds (str ''tmpSecretId'') = Inr (JStr (str ''id''))"
    and 4: "subscript ?creds (str ''tmpSecretKey'') = Inr (JStr (str ''key''))"
    and 5: "subscript ?creds (str ''sessionToken'') = Inr (JStr (str ''tok''))"
    and 7: "subscript demo_credentials (str ''bucket'') = Inr (JStr (str ''b1''))"
    and 8: "subscript demo_credentials (str ''keyPrefix'') = Inr (JStr (str ''p''))"
    and 9: "subscript demo_credentials (str ''cdnDomain'') = Inr (JStr (str ''cdn.example.com''))"
    by (simp_all add: subscript_def demo_credentials_def str_def)
  have 6: "cos_client demo_env (JStr (str ''ap-x'')) (JStr (str ''id'')) (JStr (str ''key''))
             (JStr (str ''tok'')) = None"
    by (simp add: demo_env_def scenario_def)
  have 10: "str ''p/123e4567-e89b-42d3-a456-426614174000/Test2024.pdf''
              = fmt demo_env (JStr (str ''p'')) @ str ''/'' @ uuid4 demo_env @ str ''/''
                  @ path_basename demo_env (str ''PDF/Test2024.pdf'')"
    by (simp add: fmt_def demo_env_def scenario_def demo_uuid_def posix_basename_def str_def)
  have 11: "cos_upload_file demo_env (JStr (str ''b1'')) (str ''PDF/Test2024.pdf'')
              (str ''p/123e4567-e89b-42d3-a456-426614174000/Test2024.pdf'') = None"
    by (simp add: demo_env_def scenario_def)
  from upload_to_cos_success[OF 1 2 3 4 5 6 7 8 9 10 11] show ?thesis
    by (simp add: fmt_def str_def)
qed

text \<open>
  Claim C9.  For every credential structure and file path: if the upload call is
  made and raises, \<open>upload_to_cos\<close> returns \<open>None\<close>; the exception does not reach the
  caller.
\<close>

theorem upload_exception_caught:
  assumes "EvCosUpload bucket path okey \<in> set (fst (upload_to_cos E c fp))"
    and "cos_upload_file E bucket path okey = Some e"
  shows "snd (upload_to_cos E c fp) = Inr None"
proof (cases "cos_prepare E c fp")
  case (Inl x)
  with assms(1) show ?thesis by (simp add: upload_to_cos_raised)
next
  case (Inr bk)
  then obtain b k where bk: "cos_prepare E c fp = Inr (b, k)" by (cases bk) simp
  from assms(1) have "bucket = b \<and> path = fp \<and> okey = k"
    by (auto simp: upload_to_cos_prepared[OF bk] split: option.splits sum.splits)
  with assms(2) show ?thesis
    by (simp add: upload_to_cos_prepared[OF bk])
qed

theorem upload_exception_caught_witness:
  "EvCosUpload (JStr (str ''b1'')) (str ''PDF/Test2024.pdf'')
       (key (demo_info demo_uuid (str ''PDF/Test2024.pdf'')))
     \<in> set (fst (upload_to_cos failing_upload_env demo_credentials (str ''PDF/Test2024.pdf'')))
   \<and> cos_upload_file failing_upload_env (JStr (str ''b1'')) (str ''PDF/Test2024.pdf'')
       (key (demo_info demo_uuid (str ''PDF/Test2024.pdf''))) = Some (External 1)
   \<and> snd (upload_to_cos failing_upload_env demo_credentials (str ''PDF/Test2024.pdf'')) = Inr None"
proof -
  let ?k = "key (demo_info demo_uuid (str ''PDF/Test2024.pdf''))"
  have p: "cos_prepare failing_upload_env demo_credentials (str ''PDF/Test2024.pdf'')
             = Inr (JStr (str ''b1''), ?k)"
    unfolding failing_upload_env_def by (rule scenario_prepare)
  have b: "cos_upload_file failing_upload_env (JStr (str ''b1'')) (str ''PDF/Test2024.pdf'') ?k
             = Some (External 1)"
    by (simp add: failing_upload_env_def scenario_def)
  have a: "EvCosUpload (JStr (str ''b1'')) (str ''PDF/Test2024.pdf'') ?k
             \<in> set (fst (upload_to_cos failing_upload_env demo_credentials (str ''PDF/Test2024.pdf'')))"
    by (simp add: upload_to_cos_prepared[OF p] b)
  from a b upload_exception_caught[OF a b] show ?thesis by simp
qed

text \<open>
  Claim C6.  When the attachment fragment is present, splits at its first colon into
  a key part and a value part, and the value part parses, the key (whitespace and
  quotes stripped) is set in the payload mapping to the parsed value, replacing any
  value it had; every other key keeps its value.
\<close>

theorem merge_attachment_overwrites:
  assumes "split_first 58 pp = [k, v]"
    and "json_loads pf v = Inr val"
    and "ky = strip_by (\<lambda>c. c = 34) (strip_by is_py_space k)"
  shows "merge_attachment pf (Some pp) (JObj d) = Inr (JObj (AList.update ky val d))
         \<and> map_of (AList.update ky val d) ky = Some val
         \<and> (\<forall>k'. k' \<noteq> ky \<longrightarrow> map_of (AList.update ky val d) k' = map_of d k')"
proof -
  from assms(1) have "pp \<noteq> []"
    by (auto simp: split_first_def)
  with assms show ?thesis
    by (simp add: merge_attachment_def setitem_def update_conv')
qed

lemma loads_demo_array: "json_loads (\<lambda>t. t) (str '' [1]'') = Inr (JArr [JInt 1 :: pystr json])"
  by code_simp

theorem merge_attachment_overwrites_witness:
  "merge_attachment (\<lambda>t. t) (Some (str ''\"attachments\": [1]''))
       (JObj [(str ''attachments'', JNull), (str ''a'', JInt 1)])
     = Inr (JObj [(str ''attachments'', JArr [JInt 1 :: pystr json]), (str ''a'', JInt 1)])
   \<and> map_of (AList.update (str ''attachments'') (JArr [JInt 1 :: pystr json])
               [(str ''attachments'', JNull), (str ''a'', JInt 1)]) (str ''a'')
     = Some (JInt 1)"
proof -
  have a: "split_first 58 (str ''\"attachments\": [1]'') = [str ''\"attachments\"'', str '' [1]'']"
    by (simp add: split_first_def str_def)
  have c: "str ''attachments'' = strip_by (\<lambda>c. c = 34) (strip_by is_py_space (str ''\"attachments\"''))"
    by (simp add: strip_by_def rstrip_by_def is_py_space_def str_def)
  have n: "str ''a'' \<noteq> str ''attachments''"
    by (simp add: str_def)
  from merge_attachment_overwrites[OF a loads_demo_array c,
      of "[(str ''attachments'', JNull), (str ''a'', JInt 1)]"] n
  show ?thesis by (simp add: str_def)
qed

section \<open>The pipeline of \<open>save_new_paper\<close>\<close>

lemma written_records_append:
  "written_records (tr @ tr') = written_records tr @ written_records tr'"
proof (induction tr)
  case Nil
  show ?case by simp
next
  case (Cons ev tr)
  then show ?case by (cases ev) simp_all
qed

lemma written_records_within:
  "within K tr \<Longrightarrow> KWrite \<notin> K \<Longrightarrow> written_records tr = []"
proof (induction tr)
  case Nil
  show ?case by simp
next
  case (Cons ev tr)
  then show ?case by (cases ev) (auto simp: within_Cons)
qed

lemma merge_attachment_None: "merge_attachment pf None d = Inr d"
  by (simp add: merge_attachment_def)

lemma assemble_eq:
  assumes "ask_llm_for_playload E (llm_prompt qp) = Inr frag"
    and "upload_pdf E (pdf_path qp) = (t, Inr pp)"
  shows "assemble E qp =
           (case json_loads (py_float E) ([123] @ trim_payload frag @ [125]) of
              Inl e \<Rightarrow>
                (EvAskLLM (llm_prompt qp) # t
                   @ [EvPrint (MsgJsonError e), EvPrint (MsgPayloadContent (trim_payload frag))],
                 Inl e)
            | Inr d \<Rightarrow>
                (case merge_attachment (py_float E) pp d of
                   Inl e \<Rightarrow> (EvAskLLM (llm_prompt qp) # t, Inl e)
                 | Inr merged \<Rightarrow>
                     (EvAskLLM (llm_prompt qp) # t, Inr (json_dumps (float_json E) None merged))))"
  using assms
  by (simp add: assemble_def bnd_Inr bnd_Inl Let_def lift_def split: sum.splits)

lemma assemble_within:
  assumes "within K (fst (upload_pdf E (pdf_path qp)))" and "KPrint \<in> K" and "KAskLLM \<in> K"
  shows "within K (fst (assemble E qp))"
proof (cases "ask_llm_for_playload E (llm_prompt qp)")
  case (Inl e)
  with assms show ?thesis
    by (simp add: assemble_def bnd_Inl within_Cons within_Nil)
next
  case (Inr frag)
  show ?thesis
  proof (cases "upload_pdf E (pdf_path qp)")
    case (Pair t r)
    show ?thesis
    proof (cases r)
      case (Inl e)
      with Pair Inr assms show ?thesis
        by (simp add: assemble_def bnd_Inl bnd_Inr within_Cons within_Nil)
    next
      case r: (Inr pp)
      from assms Pair show ?thesis
        unfolding assemble_eq[OF Inr Pair[unfolded r]]
        by (simp add: within_Cons within_Nil within_append split: sum.splits)
    qed
  qed
qed

lemma save_new_paper_raised:
  "assemble E qp = (t, Inl e) \<Longrightarrow> save_new_paper E qp = (t, qp, Inl e)"
  by (simp add: save_new_paper_def bnd_Inl)

lemma save_new_paper_assembled:
  assumes "assemble E qp = (t, Inr body)"
  shows "save_new_paper E qp =
           (case save_fetch E body of
              Inl e \<Rightarrow> (t @ [EvPrint (MsgSending body), EvSubmit body], qp, Inl e)
            | Inr result \<Rightarrow>
                (t @ [EvPrint (MsgSending body), EvSubmit body,
                      EvPrint (MsgApiResponse (json_dumps (float_json E) (Some 2) result))]
                   @ fst (persist E qp result),
                 snd (persist E qp result)))"
  using assms
  by (simp add: save_new_paper_def submit_def bnd_Inl bnd_Inr split: sum.splits prod.splits)

lemma save_new_paper_within:
  assumes "within K (fst (upload_pdf E (pdf_path qp)))"
    and "{KPrint, KAskLLM, KSubmit, KMkdir, KOpen, KWrite} \<subseteq> K"
  shows "within K (fst (save_new_paper E qp))"
proof -
  from assms have a: "within K (fst (assemble E qp))"
    by (intro assemble_within) auto
  have p: "within K (fst (persist E qp r))" for r
    by (rule within_mono[OF persist_kinds]) (use assms(2) in auto)
  show ?thesis
  proof (cases "assemble E qp")
    case (Pair t r)
    with a have t: "within K t" by simp
    show ?thesis
    proof (cases r)
      case (Inl e)
      with Pair t show ?thesis by (simp add: save_new_paper_raised)
    next
      case (Inr body)
      with Pair t p assms(2) show ?thesis
        by (simp add: save_new_paper_assembled within_append within_Cons within_Nil
            split: sum.splits)
    qed
  qed
qed

lemma persist_entered:
  assumes "py_get result (str ''success'') = Inr s"
    and "truthy (float_bool E) s"
    and "py_get result (str ''data'') = Inr pid"
    and "mkdir_output E = None"
    and "toml_open E (name qp) = None"
  shows "persist E qp result =
           (case tomli_w_dump E (name qp) (page_data_dict (qp\<lparr>page_id := pid\<rparr>) (float_bool E)) of
              (tr, Inl e) \<Rightarrow>
                ([EvPrint (MsgPaperId pid), EvMkdir, EvOpenToml (name qp)] @ tr,
                 qp\<lparr>page_id := pid\<rparr>, Inl e)
            | (tr, Inr u) \<Rightarrow>
                ([EvPrint (MsgPaperId pid), EvMkdir, EvOpenToml (name qp)] @ tr
                   @ [EvPrint (MsgSavedToml (name qp))],
                 qp\<lparr>page_id := pid\<rparr>, Inr pid))"
proof -
  from assms(1) obtain d where d: "result = JObj d" and s: "s = dict_get d (str ''success'')"
    by (auto simp: py_get_def split: json.splits)
  from assms(2) s have "d \<noteq> []"
    by (auto simp: dict_get_def)
  with d have "truthy (float_bool E) result" by simp
  with assms show ?thesis
    by (simp add: persist_def Let_def bnd_Inl bnd_Inr attempt_def emit_def
        split: prod.splits sum.splits)
qed

text \<open>The two ways of the dump: the record is written, or its \<open>page_id\<close> is refused.\<close>

lemma tomli_w_dump_written:
  "toml_value (pd_page_id d) \<Longrightarrow> toml_write E n d = None
     \<Longrightarrow> tomli_w_dump E n d = ([EvWriteToml n d], Inr ())"
  by (simp add: tomli_w_dump_def bnd_Inr attempt_def emit_def)

lemma tomli_w_dump_refused:
  "\<not> toml_value (pd_page_id d) \<Longrightarrow> tomli_w_dump E n d = ([], Inl TypeError)"
  by (simp add: tomli_w_dump_def)

lemma page_id_kept:
  "truthy fb pid \<Longrightarrow> pd_page_id (page_data_dict (qp\<lparr>page_id := pid\<rparr>) fb) = pid"
  by (simp add: page_data_dict_def)

lemma page_id_dropped:
  "\<not> truthy fb pid \<Longrightarrow> pd_page_id (page_data_dict (qp\<lparr>page_id := pid\<rparr>) fb) = JNull"
  by (simp add: page_data_dict_def)

lemma scenario_credentials:
  "get_upload_credentials (scenario u (Inr demo_credential_response) up frag resp) f =
     ([EvPrint MsgStage1, EvCredentialRequest f, EvPrint MsgCredOk], demo_credentials)"
  by (simp add: get_upload_credentials_def scenario_def demo_credential_response_def
      py_get_def dict_get_def str_def)

lemma scenario_notified:
  "notify_application_server (scenario u cred up frag resp) f i =
     ([EvPrint MsgStage3, EvNotifyRequest f (url i), EvPrint MsgNotifyOk],
      JObj [(str ''success'', JBool True),
            (str ''data'', JArr [JObj [(str ''fileName'', JStr f), (str ''fileUrl'', JStr (url i))]])])"
  by (simp add: notify_application_server_def scenario_def)

lemma scenario_fragment:
  "attachment_fragment (scenario u cred up frag resp)
     (JObj [(str ''success'', JBool True), (str ''data'', d)])
   = ([EvPrint MsgRule, EvPrint MsgGotData],
      Inr (Some (str ''\"attachments\": '' @ json_dumps (\<lambda>x. x) (Some 2) d)))"
  by (simp add: attachment_fragment_def scenario_def dict_get_def py_contains_def)
     (simp add: str_def)

lemma scenario_upload_pdf:
  "upload_pdf (scenario u (Inr demo_credential_response) None frag resp) fp =
     ([EvPrint MsgStage1, EvCredentialRequest (posix_basename fp), EvPrint MsgCredOk,
       EvPrint MsgStage2,
       EvPrint (MsgObjectKey (key (demo_info u fp))),
       EvCosUpload (JStr (str ''b1'')) fp (key (demo_info u fp)),
       EvPrint MsgUploadOk,
       EvPrint (MsgFinalUrl (url (demo_info u fp))),
       EvPrint MsgStage3,
       EvNotifyRequest (posix_basename fp) (url (demo_info u fp)),
       EvPrint MsgNotifyOk, EvPrint MsgRule, EvPrint MsgGotData],
      Inr (Some (str ''\"attachments\": '' @ json_dumps (\<lambda>x. x) (Some 2) (demo_data u fp))))"
proof -
  let ?E = "scenario u (Inr demo_credential_response) None frag resp"
  have e: "path_exists ?E fp"
    and b: "path_basename ?E fp = posix_basename fp"
    and t: "truthy (float_bool ?E) demo_credentials"
    by (simp_all add: scenario_def demo_credentials_def)
  show ?thesis
    unfolding upload_pdf_def Let_def
    by (simp add: e b t scenario_credentials total_def bnd_Inr scenario_upload scenario_notified
        scenario_fragment demo_data_def)
qed

lemma demo_attachment_loads:
  "json_loads (\<lambda>t. t) (32 # json_dumps (\<lambda>x. x) (Some 2) (demo_data demo_uuid (str ''PDF/Test2024.pdf'')))
     = Inr (demo_data demo_uuid (str ''PDF/Test2024.pdf''))"
  by code_simp

lemma demo_fragment_loads:
  "json_loads (\<lambda>t. t) (123 # trim_payload demo_fragment @ [125])
     = Inr (JObj [(str ''paperName'', JStr (str ''Test2024'')), (str ''year'', JInt 2024)])"
  by code_simp

lemma split_attachments:
  "split_first 58 (str ''\"attachments\": '' @ x) = [str ''\"attachments\"'', 32 # x]"
  by (simp add: split_first_def str_def)

lemma attachments_key:
  "strip_by (\<lambda>c. c = 34) (strip_by is_py_space (str ''\"attachments\"'')) = str ''attachments''"
  by (simp add: strip_by_def rstrip_by_def is_py_space_def str_def)

lemma merge_attachment_Some:
  assumes "split_first 58 pp = [k, v]" and "json_loads pf v = Inr val"
  shows "merge_attachment pf (Some pp) (JObj d)
           = Inr (JObj (AList.update (strip_by (\<lambda>c. c = 34) (strip_by is_py_space k)) val d))"
proof -
  from assms(1) have "pp \<noteq> []" by (auto simp: split_first_def)
  with assms show ?thesis by (simp add: merge_attachment_def setitem_def)
qed

lemma save_new_paper_success:
  assumes "assemble E qp = (t, Inr body)"
    and "save_fetch E body = Inr result"
    and "py_get result (str ''success'') = Inr s"
    and "truthy (float_bool E) s"
    and "py_get result (str ''data'') = Inr pid"
    and "mkdir_output E = None"
    and "toml_open E (name qp) = None"
    and "truthy (float_bool E) pid"
    and "toml_value pid"
    and "toml_write E (name qp) (page_data_dict (qp\<lparr>page_id := pid\<rparr>) (float_bool E)) = None"
  shows "written_records (fst (save_new_paper E qp))
           = written_records t @ [page_data_dict (qp\<lparr>page_id := pid\<rparr>) (float_bool E)]"
    and "snd (save_new_paper E qp) = (qp\<lparr>page_id := pid\<rparr>, Inr pid)"
    and "EvSubmit body \<in> set (fst (save_new_paper E qp))"
proof -
  have "toml_value (pd_page_id (page_data_dict (qp\<lparr>page_id := pid\<rparr>) (float_bool E)))"
    using assms(8,9) by (simp add: page_id_kept)
  note w = tomli_w_dump_written[OF this assms(10)]
  note p = persist_entered[OF assms(3,4,5,6,7)]
  show "written_records (fst (save_new_paper E qp))
           = written_records t @ [page_data_dict (qp\<lparr>page_id := pid\<rparr>) (float_bool E)]"
    using assms(2) by (simp add: save_new_paper_assembled[OF assms(1)] p w written_records_append)
  show "snd (save_new_paper E qp) = (qp\<lparr>page_id := pid\<rparr>, Inr pid)"
    using assms(2) by (simp add: save_new_paper_assembled[OF assms(1)] p w)
  show "EvSubmit body \<in> set (fst (save_new_paper E qp))"
    using assms(2) by (simp add: save_new_paper_assembled[OF assms(1)])
qed

text \<open>
  The identifier is falsy, or holds a \<open>None\<close>: the file has been opened when the dump
  raises, and nothing of the record is complete.
\<close>

lemma save_new_paper_refused:
  assumes "assemble E qp = (t, Inr body)"
    and "save_fetch E body = Inr result"
    and "py_get result (str ''success'') = Inr s"
    and "truthy (float_bool E) s"
    and "py_get result (str ''data'') = Inr pid"
    and "mkdir_output E = None"
    and "toml_open E (name qp) = None"
    and "\<not> truthy (float_bool E) pid \<or> \<not> toml_value pid"
  shows "save_new_paper E qp
           = (t @ [EvPrint (MsgSending body), EvSubmit body,
                   EvPrint (MsgApiResponse (json_dumps (float_json E) (Some 2) result)),
                   EvPrint (MsgPaperId pid), EvMkdir, EvOpenToml (name qp)],
              qp\<lparr>page_id := pid\<rparr>, Inl TypeError)"
proof -
  have "\<not> toml_value (pd_page_id (page_data_dict (qp\<lparr>page_id := pid\<rparr>) (float_bool E)))"
    using assms(8) by (cases "truthy (float_bool E) pid") (simp_all add: page_id_kept page_id_dropped)
  note w = tomli_w_dump_refused[OF this]
  note p = persist_entered[OF assms(3,4,5,6,7)]
  show ?thesis
    using assms(2) by (simp add: save_new_paper_assembled[OF assms(1)] p w)
qed

lemma demo_page_path: "pdf_path demo_page = str ''PDF/Test2024.pdf''"
  by (simp add: pdf_path_def demo_page_def str_def)

lemma scenario_assemble_full:
  "assemble (scenario demo_uuid (Inr demo_credential_response) None (Inr demo_fragment) resp) demo_page
     = (EvAskLLM (llm_prompt demo_page)
          # fst (upload_pdf (scenario demo_uuid (Inr demo_credential_response) None
                              (Inr demo_fragment) resp) (pdf_path demo_page)),
        Inr (json_dumps (\<lambda>x. x) None demo_merged))"
proof -
  let ?E = "scenario demo_uuid (Inr demo_credential_response) None (Inr demo_fragment) resp"
  have a: "ask_llm_for_playload ?E (llm_prompt demo_page) = Inr demo_fragment"
    and f: "py_float ?E = (\<lambda>t. t)" "float_json ?E = (\<lambda>x. x)"
    by (simp_all add: scenario_def)
  have u: "upload_pdf ?E (pdf_path demo_page)
             = (fst (upload_pdf ?E (pdf_path demo_page)),
                Inr (Some (str ''\"attachments\": ''
                           @ json_dumps (\<lambda>x. x) (Some 2) (demo_data demo_uuid (pdf_path demo_page)))))"
    by (simp add: scenario_upload_pdf)
  have m: "merge_attachment (\<lambda>t. t)
             (Some (str ''\"attachments\": ''
                    @ json_dumps (\<lambda>x. x) (Some 2) (demo_data demo_uuid (pdf_path demo_page))))
             demo_payload = Inr demo_merged"
    unfolding demo_payload_def
    by (subst merge_attachment_Some[OF split_attachments])
       (simp_all add: demo_page_path demo_attachment_loads attachments_key demo_merged_def,
        simp add: str_def)
  show ?thesis
    unfolding assemble_eq[OF a u]
    by (simp add: f demo_fragment_loads[folded demo_payload_def] m)
qed

lemma assemble_no_write: "written_records (fst (assemble E qp)) = []"
proof -
  have "within {KPrint, KCredential, KCosUpload, KNotify, KAskLLM} (fst (assemble E qp))"
    by (rule assemble_within, rule within_mono[OF upload_pdf_kinds]) simp_all
  then show ?thesis by (rule written_records_within) simp
qed

lemma upload_pdf_without_credentials:
  assumes "\<not> truthy (float_bool E) (snd (get_upload_credentials E (path_basename E fp)))"
  shows "within {KPrint, KCredential} (fst (upload_pdf E fp))"
    and "snd (upload_pdf E fp) = Inr None"
proof -
  show "within {KPrint, KCredential} (fst (upload_pdf E fp))"
  proof (cases "path_exists E fp")
    case True
    from upload_pdf_no_credentials[OF True assms] credentials_kinds show ?thesis by simp
  next
    case False
    then show ?thesis by (simp add: upload_pdf_missing within_Cons within_Nil)
  qed
  show "snd (upload_pdf E fp) = Inr None"
  proof (cases "path_exists E fp")
    case True
    from upload_pdf_no_credentials[OF True assms] show ?thesis by simp
  next
    case False
    then show ?thesis by (simp add: upload_pdf_missing)
  qed
qed

text \<open>
  Claim C1, as amended.  If the credential fetch returns an absent (falsy) result, no
  object-storage upload call and no notification call occur in the run of
  \<open>save_new_paper\<close>, and \<open>upload_pdf\<close> returns \<open>None\<close>.
\<close>

theorem no_credentials_no_upload:
  assumes "\<not> truthy (float_bool E) (snd (get_upload_credentials E (path_basename E (pdf_path qp))))"
  shows "KCosUpload \<notin> set (kinds (fst (save_new_paper E qp)))
         \<and> KNotify \<notin> set (kinds (fst (save_new_paper E qp)))
         \<and> snd (upload_pdf E (pdf_path qp)) = Inr None"
proof -
  let ?K = "{KPrint, KCredential, KAskLLM, KSubmit, KMkdir, KOpen, KWrite}"
  have "within ?K (fst (upload_pdf E (pdf_path qp)))"
    by (rule within_mono[OF upload_pdf_without_credentials(1)[OF assms]]) simp
  then have w: "within ?K (fst (save_new_paper E qp))"
    by (rule save_new_paper_within) simp
  show ?thesis
    using within_kinds[OF w, of KCosUpload] within_kinds[OF w, of KNotify]
      upload_pdf_without_credentials(2)[OF assms]
    by simp
qed

lemma no_credentials_fetched:
  "snd (get_upload_credentials no_credentials_env f) = JNull"
  by (simp add: get_upload_credentials_def no_credentials_env_def scenario_def py_get_def
      dict_get_def str_def)

lemma no_credentials_assemble:
  "assemble no_credentials_env demo_page
     = (EvAskLLM (llm_prompt demo_page) # fst (upload_pdf no_credentials_env (pdf_path demo_page)),
        Inr (json_dumps (\<lambda>x. x) None demo_payload))"
proof -
  have a: "ask_llm_for_playload no_credentials_env (llm_prompt demo_page) = Inr demo_fragment"
    and f: "py_float no_credentials_env = (\<lambda>t. t)" "float_json no_credentials_env = (\<lambda>x. x)"
    by (simp_all add: no_credentials_env_def scenario_def)
  have u: "upload_pdf no_credentials_env (pdf_path demo_page)
             = (fst (upload_pdf no_credentials_env (pdf_path demo_page)), Inr None)"
    using upload_pdf_without_credentials(2)[of no_credentials_env "pdf_path demo_page"]
    by (simp add: no_credentials_fetched prod_eq_iff)
  show ?thesis
    unfolding assemble_eq[OF a u]
    by (simp add: f demo_fragment_loads[folded demo_payload_def] merge_attachment_None)
qed

theorem no_credentials_no_upload_witness:
  "\<not> truthy (float_bool no_credentials_env)
       (snd (get_upload_credentials no_credentials_env
               (path_basename no_credentials_env (pdf_path demo_page))))
   \<and> KCosUpload \<notin> set (kinds (fst (save_new_paper no_credentials_env demo_page)))
   \<and> KNotify \<notin> set (kinds (fst (save_new_paper no_credentials_env demo_page)))
   \<and> snd (upload_pdf no_credentials_env (pdf_path demo_page)) = Inr None"
proof -
  have h: "\<not> truthy (float_bool no_credentials_env)
             (snd (get_upload_credentials no_credentials_env
                     (path_basename no_credentials_env (pdf_path demo_page))))"
    by (simp add: no_credentials_fetched)
  from h no_credentials_no_upload[OF h] show ?thesis by simp
qed

text \<open>
  Claim C1 as it is written fails: where the credential request is refused and the
  paper-creation request is answered as in the sample run, the payload is
  submitted all the same, one record is written and the identifier is returned.
\<close>

theorem no_credentials_still_persists:
  "\<not> truthy (float_bool no_credentials_env)
       (snd (get_upload_credentials no_credentials_env
               (path_basename no_credentials_env (pdf_path demo_page))))
   \<and> EvSubmit (json_dumps (\<lambda>x. x) None demo_payload)
       \<in> set (fst (save_new_paper no_credentials_env demo_page))
   \<and> written_records (fst (save_new_paper no_credentials_env demo_page))
       = [page_data_dict (demo_page\<lparr>page_id := JStr (str ''PID-123'')\<rparr>)
            (float_bool no_credentials_env)]
   \<and> snd (snd (save_new_paper no_credentials_env demo_page)) = Inr (JStr (str ''PID-123''))"
proof -
  let ?E = no_credentials_env
  let ?t = "EvAskLLM (llm_prompt demo_page) # fst (upload_pdf ?E (pdf_path demo_page))"
  let ?body = "json_dumps (\<lambda>x. x) None demo_payload"
  have s: "save_fetch ?E ?body = Inr demo_response"
    and m: "mkdir_output ?E = None"
    and ow: "toml_open ?E n = None" "toml_write ?E n d = None" for n d
    by (simp_all add: no_credentials_env_def scenario_def)
  have g: "py_get demo_response (str ''success'') = Inr (JBool True)"
    "py_get demo_response (str ''data'') = Inr (JStr (str ''PID-123''))"
    by (simp_all add: demo_response_def py_get_def dict_get_def str_def)
  have t: "truthy (float_bool ?E) (JBool True)"
    "truthy (float_bool ?E) (JStr (str ''PID-123''))" "toml_value (JStr (str ''PID-123'') :: pystr json)"
    by (simp_all add: str_def)
  note r = save_new_paper_success[OF no_credentials_assemble s g(1) t(1) g(2) m ow(1) t(2,3) ow(2)]
  have "written_records ?t = []"
    using assemble_no_write[of ?E demo_page] by (simp add: no_credentials_assemble)
  with r show ?thesis
    by (simp add: no_credentials_fetched)
qed

text \<open>
  Claim C3.  When \<open>upload_pdf\<close> produces \<open>None\<close> and the trimmed LLM fragment parses
  inside braces, the payload is assembled without an error from the fragment's
  mapping alone, with no key added, and it is the body of the submission.
\<close>

theorem absent_attachment_submits_fragment:
  assumes "ask_llm_for_playload E (llm_prompt qp) = Inr fragment"
    and "snd (upload_pdf E (pdf_path qp)) = Inr None"
    and "json_loads (py_float E) ([123] @ trim_payload fragment @ [125]) = Inr payload_dict"
  shows "snd (assemble E qp) = Inr (json_dumps (float_json E) None payload_dict)
         \<and> EvSubmit (json_dumps (float_json E) None payload_dict) \<in> set (fst (save_new_paper E qp))"
proof -
  from assms(2) have u: "upload_pdf E (pdf_path qp) = (fst (upload_pdf E (pdf_path qp)), Inr None)"
    by (simp add: prod_eq_iff)
  have a: "assemble E qp
             = (EvAskLLM (llm_prompt qp) # fst (upload_pdf E (pdf_path qp)),
                Inr (json_dumps (float_json E) None payload_dict))"
    unfolding assemble_eq[OF assms(1) u] using assms(3)
    by (simp add: merge_attachment_None)
  show ?thesis
    by (simp add: a save_new_paper_assembled[OF a] split: sum.splits)
qed

theorem absent_attachment_submits_fragment_witness:
  "ask_llm_for_playload no_credentials_env (llm_prompt demo_page) = Inr demo_fragment
   \<and> snd (upload_pdf no_credentials_env (pdf_path demo_page)) = Inr None
   \<and> json_loads (py_float no_credentials_env) ([123] @ trim_payload demo_fragment @ [125])
       = Inr demo_payload
   \<and> snd (assemble no_credentials_env demo_page)
       = Inr (json_dumps (float_json no_credentials_env) None demo_payload)
   \<and> EvSubmit (json_dumps (float_json no_credentials_env) None demo_payload)
       \<in> set (fst (save_new_paper no_credentials_env demo_page))"
proof -
  have a: "ask_llm_for_playload no_credentials_env (llm_prompt demo_page) = Inr demo_fragment"
    by (simp add: no_credentials_env_def scenario_def)
  have b: "snd (upload_pdf no_credentials_env (pdf_path demo_page)) = Inr None"
    by (rule upload_pdf_without_credentials(2)) (simp add: no_credentials_fetched)
  have c: "json_loads (py_float no_credentials_env) ([123] @ trim_payload demo_fragment @ [125])
             = Inr demo_payload"
    using demo_fragment_loads by (simp add: no_credentials_env_def scenario_def demo_payload_def)
  from a b c absent_attachment_submits_fragment[OF a b c] show ?thesis by simp
qed

text \<open>
  Claim C5.  If the trimmed and brace-wrapped LLM fragment fails to parse,
  \<open>save_new_paper\<close> raises the parser's exception; the last things it did were to
  print the error and the offending (trimmed) fragment; no submission request is
  made in the run.
\<close>

theorem malformed_fragment_raises:
  assumes "ask_llm_for_playload E (llm_prompt qp) = Inr fragment"
    and "snd (upload_pdf E (pdf_path qp)) = Inr parcial_payload"
    and "json_loads (py_float E) ([123] @ trim_payload fragment @ [125]) = Inl e"
  shows "snd (snd (save_new_paper E qp)) = Inl e
         \<and> fst (save_new_paper E qp)
             = EvAskLLM (llm_prompt qp) # fst (upload_pdf E (pdf_path qp))
                 @ [EvPrint (MsgJsonError e), EvPrint (MsgPayloadContent (trim_payload fragment))]
         \<and> KSubmit \<notin> set (kinds (fst (save_new_paper E qp)))"
proof -
  let ?t = "EvAskLLM (llm_prompt qp) # fst (upload_pdf E (pdf_path qp))
              @ [EvPrint (MsgJsonError e), EvPrint (MsgPayloadContent (trim_payload fragment))]"
  from assms(2) have u: "upload_pdf E (pdf_path qp)
                           = (fst (upload_pdf E (pdf_path qp)), Inr parcial_payload)"
    by (simp add: prod_eq_iff)
  have a: "assemble E qp = (?t, Inl e)"
    unfolding assemble_eq[OF assms(1) u] using assms(3) by simp
  have "within {KPrint, KCredential, KCosUpload, KNotify, KAskLLM} (fst (assemble E qp))"
    by (rule assemble_within, rule within_mono[OF upload_pdf_kinds]) simp_all
  then have "KSubmit \<notin> set (kinds (fst (assemble E qp)))"
    by (rule within_kinds) simp
  then show ?thesis
    by (simp add: a save_new_paper_raised[OF a])
qed

lemma bad_fragment_loads:
  "json_loads (\<lambda>t. t) (123 # trim_payload (str ''\"a\" 1'') @ [125]) = Inl JSONDecodeError"
  by code_simp

theorem malformed_fragment_raises_witness:
  "ask_llm_for_playload bad_fragment_env (llm_prompt demo_page) = Inr (str ''\"a\" 1'')
   \<and> snd (upload_pdf bad_fragment_env (pdf_path demo_page))
       = Inr (Some (str ''\"attachments\": ''
                    @ json_dumps (\<lambda>x. x) (Some 2) (demo_data demo_uuid (pdf_path demo_page))))
   \<and> json_loads (py_float bad_fragment_env) ([123] @ trim_payload (str ''\"a\" 1'') @ [125])
       = Inl JSONDecodeError
   \<and> snd (snd (save_new_paper bad_fragment_env demo_page)) = Inl JSONDecodeError
   \<and> fst (save_new_paper bad_fragment_env demo_page)
       = EvAskLLM (llm_prompt demo_page) # fst (upload_pdf bad_fragment_env (pdf_path demo_page))
           @ [EvPrint (MsgJsonError JSONDecodeError),
              EvPrint (MsgPayloadContent (trim_payload (str ''\"a\" 1'')))]
   \<and> KSubmit \<notin> set (kinds (fst (save_new_paper bad_fragment_env demo_page)))"
proof -
  have a: "ask_llm_for_playload bad_fragment_env (llm_prompt demo_page) = Inr (str ''\"a\" 1'')"
    by (simp add: bad_fragment_env_def scenario_def)
  have b: "snd (upload_pdf bad_fragment_env (pdf_path demo_page))
             = Inr (Some (str ''\"attachments\": ''
                    @ json_dumps (\<lambda>x. x) (Some 2) (demo_data demo_uuid (pdf_path demo_page))))"
    by (simp add: bad_fragment_env_def scenario_upload_pdf)
  have c: "json_loads (py_float bad_fragment_env) ([123] @ trim_payload (str ''\"a\" 1'') @ [125])
             = Inl JSONDecodeError"
    using bad_fragment_loads by (simp add: bad_fragment_env_def scenario_def)
  from a b c malformed_fragment_raises[OF a b c] show ?thesis by blast
qed

section \<open>The record of a submitted paper\<close>

text \<open>
  When the paper was submitted and the answer carries a truthy identifier in which
  no \<open>None\<close> occurs, and the file system does what it is asked, the run returns the
  identifier and writes one record: the paper's name, province, grade, year and
  subject, that identifier as \<open>page_id\<close>, and the stem list with each entry reduced
  to its origin and stem.
\<close>

lemma record_written:
  assumes "snd (assemble E qp) = Inr body"
    and "save_fetch E body = Inr result"
    and "py_get result (str ''success'') = Inr success"
    and "truthy (float_bool E) success"
    and "py_get result (str ''data'') = Inr paper_id"
    and "truthy (float_bool E) paper_id"
    and "toml_value paper_id"
    and "mkdir_output E = None"
    and "toml_open E (name qp) = None"
    and "\<And>d. toml_write E (name qp) d = None"
  shows "written_records (fst (save_new_paper E qp))
           = [\<lparr>pd_name = name qp, pd_province = province qp, pd_grade = grade qp,
               pd_year = year qp, pd_subject = subject qp, pd_page_id = paper_id,
               pd_stemlist = map (\<lambda>q. \<lparr>origin = origin q, stem = stem q\<rparr>) (stemlist qp)\<rparr>]"
    and "snd (snd (save_new_paper E qp)) = Inr paper_id"
proof -
  from assms(1) have a: "assemble E qp = (fst (assemble E qp), Inr body)"
    by (simp add: prod_eq_iff)
  note r = save_new_paper_success[OF a assms(2,3,4,5,8,9,6,7) assms(10)]
  from r(1) assms(6) show "written_records (fst (save_new_paper E qp))
           = [\<lparr>pd_name = name qp, pd_province = province qp, pd_grade = grade qp,
               pd_year = year qp, pd_subject = subject qp, pd_page_id = paper_id,
               pd_stemlist = map (\<lambda>q. \<lparr>origin = origin q, stem = stem q\<rparr>) (stemlist qp)\<rparr>]"
    by (simp add: assemble_no_write page_data_dict_def)
  from r(2) show "snd (snd (save_new_paper E qp)) = Inr paper_id" by simp
qed

lemma demo_record_written:
  "written_records (fst (save_new_paper demo_env demo_page))
     = [\<lparr>pd_name = str ''Test2024'', pd_province = str ''Beijing'', pd_grade = str ''9'',
         pd_year = str ''2024'', pd_subject = str ''Math'',
         pd_page_id = JStr (str ''PID-123''),
         pd_stemlist = [\<lparr>origin = str ''Q1'', stem = str ''2+2=?''\<rparr>]\<rparr>]"
proof -
  have a: "snd (assemble demo_env demo_page) = Inr (json_dumps (\<lambda>x. x) None demo_merged)"
    by (simp add: demo_env_def scenario_assemble_full)
  have s: "save_fetch demo_env (json_dumps (\<lambda>x. x) None demo_merged) = Inr demo_response"
    and m: "mkdir_output demo_env = None"
    and ow: "toml_open demo_env n = None" "toml_write demo_env n d = None" for n d
    by (simp_all add: demo_env_def scenario_def)
  have g: "py_get demo_response (str ''success'') = Inr (JBool True)"
    "py_get demo_response (str ''data'') = Inr (JStr (str ''PID-123''))"
    by (simp_all add: demo_response_def py_get_def dict_get_def str_def)
  have t: "truthy (float_bool demo_env) (JBool True)"
    "truthy (float_bool demo_env) (JStr (str ''PID-123''))"
    "toml_value (JStr (str ''PID-123'') :: pystr json)"
    by (simp_all add: str_def)
  from record_written(1)[OF a s g(1) t(1) g(2) t(2,3) m ow(1) ow(2)] show ?thesis
    by (simp add: demo_page_def str_def)
qed

text \<open>
  Claim C2 does not hold of the code where the identifier is falsy.  In the run in
  which every stage succeeds and the paper-creation response is
  \<open>{"success": true, "data": 0}\<close>, line 252 puts \<open>None\<close> for \<open>page_id\<close> and
  \<open>tomli_w.dump\<close> raises \<open>TypeError\<close>: the file has been opened, the run raises, and
  no record is completed, where the claim has a record whose \<open>page_id\<close> is 0.
\<close>

theorem zero_identifier_raises:
  "snd (upload_pdf zero_id_env (pdf_path demo_page))
     = Inr (Some (str ''\"attachments\": ''
                  @ json_dumps (\<lambda>x. x) (Some 2) (demo_data demo_uuid (pdf_path demo_page))))
   \<and> save_fetch zero_id_env (json_dumps (\<lambda>x. x) None demo_merged)
       = Inr (JObj [(str ''success'', JBool True), (str ''data'', JInt 0)])
   \<and> snd (snd (save_new_paper zero_id_env demo_page)) = Inl TypeError
   \<and> EvOpenToml (str ''Test2024'') \<in> set (fst (save_new_paper zero_id_env demo_page))
   \<and> written_records (fst (save_new_paper zero_id_env demo_page)) = []"
proof -
  let ?r = "JObj [(str ''success'', JBool True), (str ''data'', JInt 0)] :: pystr json"
  let ?t = "EvAskLLM (llm_prompt demo_page) # fst (upload_pdf zero_id_env (pdf_path demo_page))"
  have u: "snd (upload_pdf zero_id_env (pdf_path demo_page))
     = Inr (Some (str ''\"attachments\": ''
                  @ json_dumps (\<lambda>x. x) (Some 2) (demo_data demo_uuid (pdf_path demo_page))))"
    by (simp add: zero_id_env_def scenario_upload_pdf)
  have a: "assemble zero_id_env demo_page = (?t, Inr (json_dumps (\<lambda>x. x) None demo_merged))"
    unfolding zero_id_env_def by (rule scenario_assemble_full)
  have s: "save_fetch zero_id_env (json_dumps (\<lambda>x. x) None demo_merged) = Inr ?r"
    and m: "mkdir_output zero_id_env = None"
    and o: "toml_open zero_id_env n = None" for n
    by (simp_all add: zero_id_env_def scenario_def)
  have g: "py_get ?r (str ''success'') = Inr (JBool True)" "py_get ?r (str ''data'') = Inr (JInt 0)"
    by (simp_all add: py_get_def dict_get_def str_def)
  have t: "truthy (float_bool zero_id_env) (JBool True)"
    and f: "\<not> truthy (float_bool zero_id_env) (JInt 0) \<or> \<not> toml_value (JInt 0 :: pystr json)"
    by simp_all
  note r = save_new_paper_refused[OF a s g(1) t g(2) m o f]
  have n: "name demo_page = str ''Test2024''" by (simp add: demo_page_def)
  have "written_records ?t = []"
    using assemble_no_write[of zero_id_env demo_page] by (simp add: a)
  with u s show ?thesis
    by (simp add: r n written_records_append)
qed

section \<open>The scanner before a delimiter\<close>

lemma delim_facts:
  assumes "delim c"
  shows "c \<noteq> 34" "c \<noteq> 92" "c \<noteq> 117" "backslash c = None" "hex_val c = None" "\<not> is_digit c"
    "c \<noteq> 45" "c \<noteq> 46" "c \<noteq> 101" "c \<noteq> 69" "c \<noteq> 43" "c \<noteq> 48"
  using assms
  by (auto simp: delim_def is_py_space_def backslash_def hex_val_def is_digit_def)

lemma json_ws_delim: "is_json_ws c \<Longrightarrow> delim c"
  by (auto simp: delim_def is_json_ws_def is_py_space_def)

lemma decode_delim:
  "delim h1 \<or> delim h2 \<or> delim h3 \<or> delim h4 \<Longrightarrow> decode_uXXXX h1 h2 h3 h4 = None"
  by (auto simp: decode_uXXXX_def delim_facts(5) split: option.splits)

lemma hex4_Cons4: "hex4 (h1 # h2 # h3 # h4 # r) = map_option (\<lambda>u. (u, r)) (decode_uXXXX h1 h2 h3 h4)"
  by (simp add: hex4_def)

lemma hex4_short: "length s < 4 \<Longrightarrow> hex4 s = None"
  by (auto simp: hex4_def split: list.splits)

lemma hex4_delim:
  assumes "list_all delim z"
  shows "hex4 (x @ z) = map_option (\<lambda>(u, r). (u, r @ z)) (hex4 x)"
proof (cases "length x < 4")
  case False
  then obtain h1 h2 h3 h4 r where x: "x = h1 # h2 # h3 # h4 # r"
    by (cases x; cases "tl x"; cases "tl (tl x)"; cases "tl (tl (tl x))") auto
  show ?thesis
    unfolding x by (simp add: hex4_Cons4 option.map_comp comp_def)
next
  case True
  then have n: "hex4 x = None" by (rule hex4_short)
  have "hex4 (x @ z) = None"
  proof (cases "length (x @ z) < 4")
    case True
    then show ?thesis by (rule hex4_short)
  next
    case False
    then obtain h1 h2 h3 h4 r where xz: "x @ z = h1 # h2 # h3 # h4 # r"
      by (cases "x @ z"; cases "tl (x @ z)"; cases "tl (tl (x @ z))"; cases "tl (tl (tl (x @ z)))") auto
    have "(x @ z) ! 3 \<in> set z"
      using True False by (simp add: nth_append)
    with assms xz have "delim h4"
      by (auto simp: list_all_iff)
    then show ?thesis
      unfolding xz by (simp add: hex4_Cons4 decode_delim)
  qed
  with n show ?thesis by simp
qed

text \<open>A literal made of characters that are no delimiters.\<close>

lemma delims_head: "list_all delim z \<Longrightarrow> delim_head z"
  by (cases z) (simp_all add: delim_head_def)

lemma delim_head_Nil: "delim_head []"
  by (simp add: delim_head_def)

lemma delim_head_Cons: "delim_head (c # r) \<longleftrightarrow> delim c"
  by (simp add: delim_head_def)

lemma starts_with_delim:
  assumes "delim_head z" and "\<forall>c\<in>set p. \<not> delim c"
  shows "starts_with p (x @ z) \<longleftrightarrow> starts_with p x"
proof (cases "length p \<le> length x")
  case True
  then show ?thesis by (simp add: starts_with_def)
next
  case False
  then have nx: "\<not> starts_with p x"
    by (auto simp: starts_with_def dest: arg_cong[where f = length])
  have "\<not> starts_with p (x @ z)"
  proof
    assume "starts_with p (x @ z)"
    then have e: "take (length p) (x @ z) = p" by (simp add: starts_with_def)
    from arg_cong[OF e, of length] have l: "length p \<le> length (x @ z)" by simp
    from False have lx: "length x < length p" by simp
    have "p ! length x = take (length p) (x @ z) ! length x" by (simp only: e)
    also have "\<dots> = (x @ z) ! length x" using lx by (simp add: nth_append)
    also have "\<dots> = z ! 0" by (simp add: nth_append)
    finally have pz: "p ! length x = z ! 0" .
    from False l have "z \<noteq> []" by auto
    then obtain c r where z: "z = c # r" by (cases z) auto
    with assms(1) pz have "delim (p ! length x)" by (simp add: delim_head_def)
    moreover have "p ! length x \<in> set p" using False by simp
    ultimately show False using assms(2) by blast
  qed
  with nx show ?thesis by simp
qed

lemma starts_with_length: "starts_with p x \<Longrightarrow> length p \<le> length x"
proof -
  assume "starts_with p x"
  then have "take (length p) x = p" by (simp only: starts_with_def)
  from arg_cong[OF this, of length] show ?thesis by simp
qed

lemma starts_with_drop:
  "starts_with p x \<Longrightarrow> drop (length p) (x @ z) = drop (length p) x @ z"
  by (simp add: starts_with_length)

lemma scan_escape_delim:
  assumes "list_all delim z"
  shows "scan_escape (x @ z) = map_option (\<lambda>(c, r). (c, r @ z)) (scan_escape x)"
proof (cases x)
  case Nil
  show ?thesis
  proof (cases z)
    case Nil
    with \<open>x = []\<close> show ?thesis by (simp add: scan_escape_def)
  next
    case (Cons e r)
    with assms have "delim e" by simp
    with Cons \<open>x = []\<close> show ?thesis
      by (simp add: scan_escape_def delim_facts)
  qed
next
  case (Cons esc r1)
  show ?thesis
  proof (cases "esc = 117")
    case False
    with Cons show ?thesis
      by (simp add: scan_escape_def option.map_comp comp_def)
  next
    case True
    have d: "\<forall>c\<in>set [92, 117::nat]. \<not> delim c"
      by (auto dest: delim_facts)
    show ?thesis
    proof (cases "hex4 r1")
      case None
      with Cons True show ?thesis
        by (simp add: scan_escape_def hex4_delim[OF assms])
    next
      case (Some ur)
      obtain uni r2 where ur: "ur = (uni, r2)" by (cases ur)
      show ?thesis
      proof (cases "55296 \<le> uni \<and> uni \<le> 56319 \<and> starts_with [92, 117] r2")
        case False
        with Cons True Some ur show ?thesis
          using starts_with_delim[OF delims_head[OF assms] d, of r2]
          by (auto simp: scan_escape_def hex4_delim[OF assms])
      next
        case t: True
        then have s: "starts_with [92, 117] (r2 @ z)"
          using starts_with_delim[OF delims_head[OF assms] d, of r2] by simp
        from t have "starts_with [92, 117] r2" by blast
        from starts_with_length[OF this] have "2 \<le> length r2" by simp
        then have d0: "2 - length r2 = 0" by simp
        from Cons True Some ur t s show ?thesis
          by (auto simp: scan_escape_def hex4_delim[OF assms] d0 split: option.splits)
      qed
    qed
  qed
qed

lemma scanstring_delims: "list_all delim z \<Longrightarrow> scanstring z = None"
proof (induction z)
  case Nil
  show ?case by simp
next
  case (Cons c z)
  then show ?case
    by (simp add: delim_facts chunk_def)
qed

lemma scanstring_delim:
  assumes "list_all delim z"
  shows "scanstring (x @ z) = map_option (\<lambda>(s, r). (s, r @ z)) (scanstring x)"
proof (induction x rule: scanstring.induct)
  case 1
  show ?case by (simp add: scanstring_delims[OF assms])
next
  case (2 c r)
  show ?case
  proof (cases "c = 34")
    case True
    then show ?thesis by simp
  next
    case c34: False
    show ?thesis
    proof (cases "c = 92")
      case True
      show ?thesis
      proof (cases "scan_escape r")
        case None
        with c34 True show ?thesis
          by (simp add: scan_escape_delim[OF assms])
      next
        case (Some cr)
        obtain ch r' where cr: "cr = (ch, r')" by (cases cr)
        from 2(1)[OF c34 True Some[unfolded cr] refl] c34 True Some cr show ?thesis
          by (simp add: scan_escape_delim[OF assms] chunk_def option.map_comp comp_def
              split_def)
      qed
    next
      case False
      show ?thesis
      proof (cases "c < 32")
        case True
        with c34 False show ?thesis by simp
      next
        case c32: False
        from 2(2)[OF c34 False c32] c34 False c32 show ?thesis
          by (simp add: chunk_def option.map_comp comp_def split_def)
      qed
    qed
  qed
qed

lemma takeWhile_digit_delim:
  "delim_head z \<Longrightarrow> takeWhile is_digit (x @ z) = takeWhile is_digit x"
  by (induction x) (auto simp: delim_head_def delim_facts(6) split: list.splits)

lemma dropWhile_digit_delim:
  "delim_head z \<Longrightarrow> dropWhile is_digit (x @ z) = dropWhile is_digit x @ z"
  by (induction x) (auto simp: delim_head_def delim_facts(6) split: list.splits)

lemma sign_part_delim:
  assumes "delim_head z"
  shows "sign_part (x @ z) = (fst (sign_part x), snd (sign_part x) @ z)"
proof (cases x)
  case Nil
  with assms show ?thesis
    by (cases z) (simp_all add: sign_part_def delim_head_def delim_facts(7))
next
  case (Cons c r)
  then show ?thesis by (simp add: sign_part_def)
qed

lemma int_part_delim:
  assumes "delim_head z"
  shows "int_part (x @ z) = map_option (\<lambda>(ip, r). (ip, r @ z)) (int_part x)"
proof (cases x)
  case Nil
  with assms show ?thesis
    by (cases z) (simp_all add: int_part_def delim_head_def delim_facts(6))
next
  case (Cons d r)
  then show ?thesis
    by (simp add: int_part_def takeWhile_digit_delim[OF assms] dropWhile_digit_delim[OF assms])
qed

lemma frac_part_delim:
  assumes "delim_head z"
  shows "frac_part (x @ z) = (fst (frac_part x), snd (frac_part x) @ z)"
proof (cases x)
  case Nil
  with assms show ?thesis
    by (cases z) (simp_all add: frac_part_def delim_head_def delim_facts(8))
next
  case (Cons p q)
  then show ?thesis
    by (simp add: frac_part_def takeWhile_digit_delim[OF assms] dropWhile_digit_delim[OF assms])
qed

lemma exp_part_delim:
  assumes "delim_head z"
  shows "exp_part (x @ z) = (fst (exp_part x), snd (exp_part x) @ z)"
proof (cases x)
  case Nil
  with assms show ?thesis
    by (cases z) (simp_all add: exp_part_def delim_head_def delim_facts(9,10))
next
  case (Cons e q)
  show ?thesis
  proof (cases q)
    case Nil
    have "takeWhile is_digit z = []" "(case z of [] \<Rightarrow> [] | x # y \<Rightarrow> if x = 43 \<or> x = 45 then [x] else []) = []"
      using assms by (cases z; simp add: delim_head_def delim_facts)+
    with Nil Cons show ?thesis
      by (simp add: exp_part_def Let_def)
  next
    case q: (Cons c q')
    with Cons show ?thesis
      by (simp add: exp_part_def Let_def takeWhile_digit_delim[OF assms]
          dropWhile_digit_delim[OF assms])
  qed
qed

lemma match_number_delim:
  assumes "delim_head z"
  shows "match_number (x @ z) = map_option (\<lambda>(t, r). (t, r @ z)) (match_number x)"
proof (cases "int_part (snd (sign_part x))")
  case None
  then show ?thesis
    by (simp add: match_number_def sign_part_delim[OF assms] int_part_delim[OF assms])
next
  case (Some a)
  obtain ip r1 where a: "a = (ip, r1)" by (cases a)
  from Some a show ?thesis
    by (simp add: match_number_def sign_part_delim[OF assms] int_part_delim[OF assms]
        frac_part_delim[OF assms] exp_part_delim[OF assms] Let_def)
qed

lemma literal_chars:
  "\<forall>c\<in>set (str ''null''). \<not> delim c" "\<forall>c\<in>set (str ''true''). \<not> delim c"
  "\<forall>c\<in>set (str ''false''). \<not> delim c" "\<forall>c\<in>set (str ''NaN''). \<not> delim c"
  "\<forall>c\<in>set (str ''Infinity''). \<not> delim c" "\<forall>c\<in>set (str ''-Infinity''). \<not> delim c"
  by (simp_all add: str_def delim_def is_py_space_def)

lemma literal_lengths:
  "length (str ''null'') = 4" "length (str ''true'') = 4" "length (str ''false'') = 5"
  "length (str ''NaN'') = 3" "length (str ''Infinity'') = 8" "length (str ''-Infinity'') = 9"
  by (simp_all add: str_def)

lemma scan_atom_delim:
  assumes "delim_head z"
  shows "scan_atom (x @ z) = map_option (\<lambda>(t, r). (t, r @ z)) (scan_atom x)"
proof -
  have d: "starts_with p x \<Longrightarrow> drop (length p) (x @ z) = drop (length p) x @ z" for p
    by (rule starts_with_drop)
  note s = starts_with_delim[OF assms]
  show ?thesis
    unfolding scan_atom_def
    using d[of "str ''null''"] d[of "str ''true''"] d[of "str ''false''"]
      d[of "str ''NaN''"] d[of "str ''Infinity''"] d[of "str ''-Infinity''"]
    by (simp add: s[OF literal_chars(1)] s[OF literal_chars(2)] s[OF literal_chars(3)]
        s[OF literal_chars(4)] s[OF literal_chars(5)] s[OF literal_chars(6)]
        match_number_delim[OF assms] literal_lengths split: option.splits)
qed

lemma next_token_delim:
  assumes "list_all delim z" and "x \<noteq> []"
  shows "next_token (x @ z) = map_option (\<lambda>(t, r). (t, r @ z)) (next_token x)"
proof -
  from assms(2) obtain c r where x: "x = c # r" by (cases x) auto
  have a: "scan_atom (c # r @ z) = map_option (\<lambda>(t, r). (t, r @ z)) (scan_atom (c # r))"
    using scan_atom_delim[OF delims_head[OF assms(1)], of "c # r"] by simp
  show ?thesis
    unfolding x
    by (simp add: next_token_def scanstring_delim[OF assms(1)] a option.map_comp comp_def
        split_def split: option.splits)
qed

lemma lex_ws: "list_all is_json_ws w \<Longrightarrow> lex (w @ s) = lex s"
  by (simp add: lex.simps[of "w @ s"] lex.simps[of s] dropWhile_append2 list_all_iff)

lemma lex_delims:
  assumes "list_all delim z"
  shows "lex (x @ z) = (case lex x of None \<Rightarrow> None | Some ts \<Rightarrow> map_option ((@) ts) (lex z))"
proof (induction x rule: lex.induct)
  case (1 s)
  let ?d = "dropWhile is_json_ws s"
  show ?case
  proof (cases "?d = []")
    case True
    then have w: "list_all is_json_ws s"
      by (simp add: list_all_iff dropWhile_eq_Nil_conv)
    from True have "lex s = Some []" by (simp add: lex.simps[of s])
    with lex_ws[OF w, of z] show ?thesis
      by (cases "lex z") simp_all
  next
    case False
    then obtain y where "y \<in> set s" "\<not> is_json_ws y"
      by (auto simp: dropWhile_eq_Nil_conv)
    then have dz: "dropWhile is_json_ws (s @ z) = ?d @ z"
      by (rule dropWhile_append1)
    note nt = next_token_delim[OF assms False]
    show ?thesis
    proof (cases "next_token ?d")
      case None
      with False dz nt show ?thesis
        by (auto simp: lex.simps[of "s @ z"] lex.simps[of s])
    next
      case (Some tr)
      obtain t r where tr: "tr = (t, r)" by (cases tr)
      from 1[OF False Some[unfolded tr] refl] False dz nt Some tr show ?thesis
        by (cases "lex z") (auto simp: lex.simps[of "s @ z"] lex.simps[of s] split: option.splits)
    qed
  qed
qed

section \<open>Trimming the fragment\<close>

lemma rstrip_by_append: "list_all P y \<Longrightarrow> rstrip_by P (x @ y) = rstrip_by P x"
  using dropWhile_append2[of "rev y" P "rev x"] by (simp add: rstrip_by_def list_all_iff)

lemma rstrip_by_id: "x = [] \<or> \<not> P (last x) \<Longrightarrow> rstrip_by P x = x"
  by (cases x rule: rev_cases) (auto simp: rstrip_by_def)

lemma rstrip_by_last: "rstrip_by P x = [] \<or> \<not> P (last (rstrip_by P x))"
proof (cases "dropWhile P (rev x)")
  case Nil
  then show ?thesis by (simp add: rstrip_by_def)
next
  case (Cons y ys)
  then have "\<not> P y" by (simp add: dropWhile_eq_Cons_conv)
  with Cons show ?thesis by (simp add: rstrip_by_def)
qed

lemma rstrip_by_split:
  "\<exists>u. x = rstrip_by P x @ u \<and> list_all P u"
proof -
  have "x = rev (dropWhile P (rev x)) @ rev (takeWhile P (rev x))"
    by (metis rev_append rev_rev_ident takeWhile_dropWhile_id)
  then have "x = rstrip_by P x @ rev (takeWhile P (rev x))"
    by (simp add: rstrip_by_def)
  moreover have "list_all P (rev (takeWhile P (rev x)))"
    by (simp add: list_all_iff) (meson set_takeWhileD)
  ultimately show ?thesis by blast
qed

lemma sep_delim: "sep c \<Longrightarrow> delim c"
  by (auto simp: sep_def delim_def)

lemma json_ws_space: "is_json_ws c \<Longrightarrow> is_py_space c"
  by (auto simp: is_json_ws_def is_py_space_def)

lemma not_space_comma: "\<not> is_py_space 44"
  by (simp add: is_py_space_def)

lemma trim_payload_shape:
  assumes b: "b0 = [] \<or> \<not> sep (last b0)"
    and w: "list_all is_json_ws w" and cs: "list_all (\<lambda>c. c = 44) cs" and w2: "list_all is_py_space w2"
  shows "trim_payload (b0 @ w @ cs @ w2) = b0 @ (if cs = [] then [] else w)"
proof (cases "cs = []")
  case True
  from w have ws: "list_all is_py_space w"
    by (auto simp: list_all_iff json_ws_space)
  from b have b1: "b0 = [] \<or> \<not> is_py_space (last b0)" and b2: "b0 = [] \<or> \<not> last b0 = 44"
    by (auto simp: sep_def)
  have "rstrip_by is_py_space (b0 @ w @ w2) = b0"
    using rstrip_by_append[of is_py_space "w @ w2" b0] ws w2 rstrip_by_id[of b0 is_py_space] b1
    by simp
  with True show ?thesis
    using rstrip_by_id[of b0 "\<lambda>c. c = 44"] b2 by (simp add: trim_payload_def)
next
  case False
  then have l: "\<not> is_py_space (last (b0 @ w @ cs))"
    using cs by (cases cs rule: rev_cases) (auto simp: not_space_comma)
  have 1: "rstrip_by is_py_space (b0 @ w @ cs @ w2) = b0 @ w @ cs"
    using rstrip_by_append[OF w2, of "b0 @ w @ cs"] rstrip_by_id[of "b0 @ w @ cs" is_py_space] l
    by simp
  have "b0 @ w = [] \<or> \<not> (last (b0 @ w) = 44)"
  proof (cases "w = []")
    case True
    with b show ?thesis by (auto simp: sep_def)
  next
    case False
    with w have "is_json_ws (last w)" by (cases w rule: rev_cases) auto
    with False show ?thesis by (auto simp: is_json_ws_def)
  qed
  then have 2: "rstrip_by (\<lambda>c. c = 44) (b0 @ w @ cs) = b0 @ w"
    using rstrip_by_append[OF cs, of "b0 @ w"] rstrip_by_id[of "b0 @ w" "\<lambda>c. c = 44"] by simp
  from False 1 2 show ?thesis by (simp add: trim_payload_def)
qed

section \<open>Separators before the closing brace\<close>

lemma lex_punct: "punct c = Some t \<Longrightarrow> lex (c # r) = map_option ((#) t) (lex r)"
proof -
  assume p: "punct c = Some t"
  then have "\<not> is_json_ws c"
    by (auto simp: punct_def is_json_ws_def split: if_splits)
  with p show ?thesis
    by (simp add: lex.simps[of "c # r"] next_token_def)
qed

lemma lex_stray:
  assumes "delim c" and "punct c = None" and "\<not> is_json_ws c"
  shows "lex (c # r) = None"
proof -
  have "scan_atom ([] @ c # r) = map_option (\<lambda>(t, r'). (t, r' @ c # r)) (scan_atom [])"
    by (rule scan_atom_delim) (simp add: delim_head_Cons assms(1))
  moreover have "scan_atom [] = None"
    by (simp add: scan_atom_def starts_with_def match_number_def sign_part_def int_part_def str_def)
  ultimately have "scan_atom (c # r) = None" by simp
  with assms show ?thesis
    by (simp add: lex.simps[of "c # r"] next_token_def delim_facts(1))
qed

lemma lex_seps:
  assumes "list_all sep u" and "lex (u @ [125]) = Some ts"
  shows "ts = map (\<lambda>c. TComma) (filter (\<lambda>c. c = 44) u) @ [TRBrace]
         \<and> list_all (\<lambda>c. is_json_ws c \<or> c = 44) u"
  using assms
proof (induction u arbitrary: ts)
  case Nil
  then show ?case
    by (simp add: lex_punct[of 125 TRBrace] punct_def lex.simps[of "[]"])
next
  case (Cons c u)
  from Cons.prems(1) have su: "list_all sep u" and sc: "sep c" by simp_all
  show ?case
  proof (cases "c = 44")
    case True
    with Cons.prems(2) obtain ts' where l: "lex (u @ [125]) = Some ts'" and t: "ts = TComma # ts'"
      by (auto simp: lex_punct[of 44 TComma] punct_def)
    from Cons.IH[OF su l] t True show ?thesis by simp
  next
    case False
    show ?thesis
    proof (cases "is_json_ws c")
      case True
      with Cons.prems(2) have l: "lex (u @ [125]) = Some ts"
        using lex_ws[of "[c]" "u @ [125]"] by simp
      from Cons.IH[OF su l] True False show ?thesis by simp
    next
      case nw: False
      from sc False have "is_py_space c" by (simp add: sep_def)
      with nw have "punct c = None"
        by (auto simp: punct_def is_py_space_def)
      from lex_stray[OF sep_delim[OF sc] this nw] Cons.prems(2) show ?thesis by simp
    qed
  qed
qed

lemma run_append:
  "run pf s (a @ b) = (case run pf s a of None \<Rightarrow> None | Some s' \<Rightarrow> run pf s' b)"
  by (induction a arbitrary: s) (auto split: option.splits)

lemma step_comma_then:
  assumes "t = TComma \<or> t = TRBrace"
  shows "run pf s (TComma # t # ts) = None"
  using assms
  by (cases s) (auto simp: begin_value_def split: option.splits)

lemma loads_tokens:
  "json_loads pf s = Inr m \<longleftrightarrow> (\<exists>ts. lex s = Some ts \<and> run pf (SValue []) ts = Some (SDone m))"
  by (auto simp: json_loads_def split: option.splits pstate.splits)

text \<open>
  A body that parses inside braces ends, after its last token, in JSON whitespace
  only; without that whitespace it has the same tokens.
\<close>

lemma valid_body_tail:
  assumes v: "json_loads pf ([123] @ b0 @ u @ [125]) = Inr m" and u: "list_all sep u"
  shows "list_all is_json_ws u"
    and "\<exists>t0. lex ([123] @ b0) = Some t0 \<and> run pf (SValue []) (t0 @ [TRBrace]) = Some (SDone m)"
proof -
  from v obtain ts where l: "lex (([123] @ b0) @ u @ [125]) = Some ts"
    and r: "run pf (SValue []) ts = Some (SDone m)"
    unfolding loads_tokens by auto
  have d: "list_all delim (u @ [125])"
    using u by (auto simp: list_all_iff sep_def delim_def)
  from l lex_delims[OF d, of "[123] @ b0"]
  have "(case lex ([123] @ b0) of None \<Rightarrow> None
         | Some t0 \<Rightarrow> map_option ((@) t0) (lex (u @ [125]))) = Some ts"
    by simp
  then obtain t0 tu where t0: "lex ([123] @ b0) = Some t0" and tu: "lex (u @ [125]) = Some tu"
    and ts: "ts = t0 @ tu"
    by (cases "lex ([123] @ b0)"; cases "lex (u @ [125])") auto
  from lex_seps[OF u tu]
  have tu': "tu = map (\<lambda>c. TComma) (filter (\<lambda>c. c = 44) u) @ [TRBrace]"
    and wc: "list_all (\<lambda>c. is_json_ws c \<or> c = 44) u" by simp_all
  have nc: "filter (\<lambda>c. c = 44) u = []"
  proof (rule ccontr)
    assume "filter (\<lambda>c. c = 44) u \<noteq> []"
    then obtain c cs where f: "filter (\<lambda>c. c = 44) u = c # cs"
      by (cases "filter (\<lambda>c. c = 44) u") auto
    then obtain t rest where tu2: "tu = TComma # t # rest" and tt: "t = TComma \<or> t = TRBrace"
      unfolding tu' by (cases cs) auto
    have n: "run pf s' (TComma # t # rest) = None" for s'
      by (rule step_comma_then[OF tt])
    have "run pf (SValue []) ts = None"
      unfolding ts tu2 run_append by (simp add: n del: run.simps split: option.splits)
    with r show False by simp
  qed
  then have "\<forall>c\<in>set u. c \<noteq> 44" by (simp add: filter_empty_conv)
  with wc show "list_all is_json_ws u" by (auto simp: list_all_iff)
  from nc tu' ts r t0
  show "\<exists>t0. lex ([123] @ b0) = Some t0 \<and> run pf (SValue []) (t0 @ [TRBrace]) = Some (SDone m)"
    by simp
qed

lemma loads_padded:
  assumes "lex ([123] @ b0) = Some t0" and "run pf (SValue []) (t0 @ [TRBrace]) = Some (SDone m)"
    and "list_all is_json_ws w"
  shows "json_loads pf ([123] @ (b0 @ w) @ [125]) = Inr m"
proof -
  have d: "list_all delim (w @ [125])"
    using assms(3) by (auto simp: list_all_iff delim_def is_json_ws_def is_py_space_def)
  have "lex (w @ [125]) = Some [TRBrace]"
    using lex_ws[OF assms(3), of "[125]"]
    by (simp add: lex_punct[of 125 TRBrace] punct_def lex.simps[of "[]"])
  with lex_delims[OF d, of "[123] @ b0"] assms(1)
  have "lex ([123] @ (b0 @ w) @ [125]) = Some (t0 @ [TRBrace])" by simp
  with assms(2) show ?thesis
    unfolding loads_tokens by blast
qed

text \<open>
  Claim C4, as amended.  For every fragment that is a JSON object body (it parses
  inside braces) followed by JSON whitespace (space, tab, line feed, carriage
  return), then commas, then whitespace, the trimmed fragment parses inside braces
  to the mapping of the body.
\<close>

theorem trailing_separator_tolerated:
  assumes "json_loads pf ([123] @ body @ [125]) = Inr m"
    and "list_all is_json_ws w1"
    and "list_all (\<lambda>c. c = 44) cs"
    and "list_all is_py_space w2"
  shows "json_loads pf ([123] @ trim_payload (body @ w1 @ cs @ w2) @ [125]) = Inr m"
proof -
  obtain u where body: "body = rstrip_by sep body @ u" and u: "list_all sep u"
    using rstrip_by_split[of body sep] by blast
  let ?b0 = "rstrip_by sep body"
  from assms(1) body have v: "json_loads pf ([123] @ ?b0 @ u @ [125]) = Inr m"
    by (metis append_assoc)
  from valid_body_tail[OF v u] obtain t0 where uw: "list_all is_json_ws u"
    and t0: "lex ([123] @ ?b0) = Some t0"
    and r: "run pf (SValue []) (t0 @ [TRBrace]) = Some (SDone m)" by blast
  from uw assms(2) have w: "list_all is_json_ws (u @ w1)" by simp
  have "trim_payload (body @ w1 @ cs @ w2) = trim_payload (?b0 @ (u @ w1) @ cs @ w2)"
    by (metis body append_assoc)
  also have "\<dots> = ?b0 @ (if cs = [] then [] else u @ w1)"
    by (rule trim_payload_shape[OF rstrip_by_last w assms(3,4)])
  finally have t: "trim_payload (body @ w1 @ cs @ w2) = ?b0 @ (if cs = [] then [] else u @ w1)" .
  have "list_all is_json_ws (if cs = [] then [] else u @ w1)"
    using w by simp
  from loads_padded[OF t0 r this] show ?thesis
    unfolding t .
qed

lemma loads_demo_body:
  "json_loads (\<lambda>t. t) ([123] @ str ''\"a\": 1'' @ [125]) = Inr (JObj [(str ''a'', JInt 1 :: pystr json)])"
  by code_simp

theorem trailing_separator_tolerated_witness:
  "json_loads (\<lambda>t. t) ([123] @ trim_payload (str ''\"a\": 1'' @ str '' '' @ str '',,'' @ [10, 32]) @ [125])
     = Inr (JObj [(str ''a'', JInt 1 :: pystr json)])"
proof -
  have a: "list_all is_json_ws (str '' '')" "list_all (\<lambda>c. c = 44) (str '',,'')"
    "list_all is_py_space [10, 32]"
    by (simp_all add: str_def is_json_ws_def is_py_space_def)
  from trailing_separator_tolerated[OF loads_demo_body a] show ?thesis .
qed

theorem interleaved_separators_rejected:
  "json_loads (\<lambda>t. t) ([123] @ str ''\"a\": 1'' @ [125]) = Inr (JObj [(str ''a'', JInt 1 :: pystr json)])
   \<and> json_loads (\<lambda>t. t :: pystr) ([123] @ trim_payload (str ''\"a\": 1'' @ str '', ,'') @ [125])
       = Inl JSONDecodeError"
  by code_simp

section \<open>Scanning what \<open>json.dumps\<close> prints\<close>

lemma lex_next:
  assumes "next_token (c # s) = Some (t, r)" and "\<not> is_json_ws c"
  shows "lex (c # s) = map_option ((#) t) (lex r)"
  using assms by (simp add: lex.simps[of "c # s"])

lemma scan_atom_Nil: "scan_atom [] = None"
  by (simp add: scan_atom_def starts_with_def match_number_def sign_part_def int_part_def str_def)

lemma punct_delim: "punct c = Some t \<Longrightarrow> delim c"
  by (auto simp: punct_def delim_def split: if_splits)

lemma scan_atom_head:
  assumes "scan_atom s = Some res"
  shows "\<exists>c r. s = c # r \<and> punct c = None \<and> c \<noteq> 34 \<and> \<not> is_json_ws c"
proof (cases s)
  case Nil
  with assms show ?thesis by (simp add: scan_atom_Nil)
next
  case (Cons c r)
  have nd: "\<not> delim c"
  proof
    assume "delim c"
    then have "scan_atom ([] @ c # r) = map_option (\<lambda>(t, r'). (t, r' @ c # r)) (scan_atom [])"
      by (intro scan_atom_delim) (simp add: delim_head_Cons)
    with assms Cons show False by (simp add: scan_atom_Nil)
  qed
  have "c \<noteq> 34"
  proof
    assume "c = 34"
    then have "scan_atom (c # r) = None"
      by (simp add: scan_atom_def starts_with_def match_number_def sign_part_def int_part_def
          is_digit_def str_def)
    with assms Cons show False by simp
  qed
  moreover from nd have "punct c = None"
    by (cases "punct c") (auto dest: punct_delim)
  moreover from nd have "\<not> is_json_ws c"
    by (auto dest: json_ws_delim)
  ultimately show ?thesis using Cons by simp
qed

lemma lex_atom:
  assumes "scan_atom t = Some (tok, [])" and "delim_head rest"
  shows "lex (t @ rest) = map_option ((#) tok) (lex rest)"
proof -
  from scan_atom_head[OF assms(1)] obtain c r where t: "t = c # r"
    and c: "punct c = None" "c \<noteq> 34" "\<not> is_json_ws c" by blast
  have "scan_atom (t @ rest) = Some (tok, rest)"
    by (simp add: scan_atom_delim[OF assms(2)] assms(1))
  with t c have "next_token (c # r @ rest) = Some (tok, rest)"
    by (simp add: next_token_def)
  from lex_next[OF this c(3)] t show ?thesis by simp
qed

subsection \<open>Literals\<close>

lemma lex_null: "lex (str ''null'' @ rest) = map_option ((#) TNull) (lex rest)"
proof -
  have "next_token (110 # 117 # 108 # 108 # rest) = Some (TNull, rest)"
    by (simp add: next_token_def punct_def scan_atom_def starts_with_def str_def)
  from lex_next[OF this] show ?thesis by (simp add: str_def is_json_ws_def)
qed

lemma lex_true: "lex (str ''true'' @ rest) = map_option ((#) TTrue) (lex rest)"
proof -
  have "next_token (116 # 114 # 117 # 101 # rest) = Some (TTrue, rest)"
    by (simp add: next_token_def punct_def scan_atom_def starts_with_def str_def)
  from lex_next[OF this] show ?thesis by (simp add: str_def is_json_ws_def)
qed

lemma lex_false: "lex (str ''false'' @ rest) = map_option ((#) TFalse) (lex rest)"
proof -
  have "next_token (102 # 97 # 108 # 115 # 101 # rest) = Some (TFalse, rest)"
    by (simp add: next_token_def punct_def scan_atom_def starts_with_def str_def)
  from lex_next[OF this] show ?thesis by (simp add: str_def is_json_ws_def)
qed

subsection \<open>Integers\<close>

lemma digits_unfold: "digits n = (if n < 10 then [48 + n] else digits (n div 10) @ [48 + n mod 10])"
  by (rule digits.simps)

lemma digits_ne: "digits n \<noteq> []"
  by (simp add: digits_unfold[of n])

lemma digits_all: "list_all is_digit (digits n)"
proof (induction n rule: digits.induct)
  case (1 n)
  show ?case
  proof (cases "n < 10")
    case True
    then show ?thesis by (subst digits_unfold) (simp add: is_digit_def)
  next
    case False
    have "is_digit (48 + n mod 10)" by (simp add: is_digit_def)
    with 1[OF False] False show ?thesis by (subst digits_unfold) simp
  qed
qed

lemma digits_hd: "0 < n \<Longrightarrow> hd (digits n) \<noteq> 48"
proof (induction n rule: digits.induct)
  case (1 n)
  show ?case
  proof (cases "n < 10")
    case True
    with 1(2) show ?thesis by (subst digits_unfold) simp
  next
    case False
    then have "0 < n div 10" by simp
    from 1(1)[OF False this] False show ?thesis
      by (subst digits_unfold) (simp add: digits_ne)
  qed
qed

lemma digits_val_snoc: "digits_val acc (xs @ [d]) = digits_val acc xs * 10 + (d - 48)"
  by (induction xs arbitrary: acc) simp_all

lemma digits_val_digits: "digits_val 0 (digits n) = n"
proof (induction n rule: digits.induct)
  case (1 n)
  show ?case
  proof (cases "n < 10")
    case True
    then show ?thesis by (subst digits_unfold) simp
  next
    case False
    with 1[OF False] show ?thesis
      by (subst digits_unfold) (simp add: digits_val_snoc)
  qed
qed

lemma int_part_digits: "int_part (digits n) = Some (digits n, [])"
proof -
  obtain d r where dr: "digits n = d # r" using digits_ne[of n] by (cases "digits n") auto
  from digits_all[of n] dr have d: "is_digit d" and r: "list_all is_digit r" by simp_all
  from r have tw: "takeWhile is_digit r = r" "dropWhile is_digit r = []"
    by (simp_all add: list_all_iff)
  show ?thesis
  proof (cases "n = 0")
    case True
    then show ?thesis by (subst (1 2) digits_unfold) (simp add: int_part_def is_digit_def)
  next
    case False
    with digits_hd[of n] dr have "d \<noteq> 48" by simp
    with d tw show ?thesis by (simp add: dr int_part_def)
  qed
qed

lemma digits_not_minus: "digits n = d # r \<Longrightarrow> d \<noteq> 45"
  using digits_all[of n] by (auto simp: is_digit_def)

lemma match_number_int: "match_number (int_repr i) = Some (TInt i, [])"
proof (cases "i < 0")
  case True
  have "sign_part (45 # digits (nat (- i))) = ([45], digits (nat (- i)))"
    by (simp add: sign_part_def)
  with True show ?thesis
    by (simp add: match_number_def int_repr_def int_part_digits frac_part_def exp_part_def
        py_int_def digits_val_digits)
next
  case False
  obtain d r where dr: "digits (nat i) = d # r"
    using digits_ne[of "nat i"] by (cases "digits (nat i)") auto
  from digits_not_minus[OF dr] have s: "sign_part (digits (nat i)) = ([], digits (nat i))"
    by (simp add: sign_part_def dr)
  have "py_int (digits (nat i)) = int (digits_val 0 (digits (nat i)))"
    using digits_not_minus[OF dr] by (simp add: py_int_def dr)
  with False s show ?thesis
    by (simp add: match_number_def int_repr_def int_part_digits frac_part_def exp_part_def
        digits_val_digits)
qed

lemma int_repr_head: "\<exists>c r. int_repr i = c # r \<and> (is_digit c \<or> c = 45)"
proof (cases "i < 0")
  case True
  then show ?thesis by (simp add: int_repr_def)
next
  case False
  obtain d r where dr: "digits (nat i) = d # r"
    using digits_ne[of "nat i"] by (cases "digits (nat i)") auto
  with digits_all[of "nat i"] False show ?thesis by (simp add: int_repr_def)
qed

lemma scan_atom_int: "scan_atom (int_repr i) = Some (TInt i, [])"
proof -
  from int_repr_head[of i] obtain c r where cr: "int_repr i = c # r"
    and c: "is_digit c \<or> c = 45" by blast
  from c have "\<not> starts_with (str ''null'') (c # r)" "\<not> starts_with (str ''true'') (c # r)"
    "\<not> starts_with (str ''false'') (c # r)"
    by (auto simp: starts_with_def str_def is_digit_def)
  with match_number_int[of i] show ?thesis
    by (simp add: scan_atom_def cr)
qed

subsection \<open>Strings\<close>

lemma hex_val_hex_digit: "n < 16 \<Longrightarrow> hex_val (hex_digit n) = Some n"
  by (auto simp: hex_val_def hex_digit_def)

lemma scan_escape_control:
  assumes "c < 32"
  shows "scan_escape (117 # 48 # 48 # hex_digit (c div 16) # hex_digit (c mod 16) # rest)
           = Some (c, rest)"
proof -
  from assms have a: "c div 16 < 16" "c mod 16 < 16" by simp_all
  have z: "hex_val 48 = Some 0" by (simp add: hex_val_def)
  have "decode_uXXXX 48 48 (hex_digit (c div 16)) (hex_digit (c mod 16)) = Some c"
    by (simp add: decode_uXXXX_def z hex_val_hex_digit[OF a(1)] hex_val_hex_digit[OF a(2)])
  with assms show ?thesis
    by (simp add: scan_escape_def hex4_Cons4)
qed

lemma scanstring_escape_char:
  "scanstring (escape_char c @ rest) = chunk c (scanstring rest)"
proof -
  consider "c = 34" | "c = 92" | "c = 10" | "c = 13" | "c = 9" | "c = 8" | "c = 12"
    | "c < 32" "c \<notin> {10, 13, 9, 8, 12}" | "32 \<le> c" "c \<noteq> 34" "c \<noteq> 92"
    by fastforce
  then show ?thesis
  proof cases
    case 8
    then show ?thesis
      by (simp add: escape_char_def scan_escape_control)
  next
    case 9
    then show ?thesis
      by (simp add: escape_char_def)
  qed (simp_all add: escape_char_def scan_escape_def backslash_def)
qed

lemma scanstring_encoded:
  "scanstring (concat (map escape_char s) @ 34 # rest) = Some (s, rest)"
  by (induction s) (simp_all add: scanstring_escape_char chunk_def)

lemma lex_string:
  "lex (encode_basestring s @ rest) = map_option ((#) (TStr s)) (lex rest)"
proof -
  have "next_token (34 # concat (map escape_char s) @ 34 # rest) = Some (TStr s, rest)"
    by (simp add: next_token_def punct_def scanstring_encoded)
  from lex_next[OF this] show ?thesis
    by (simp add: encode_basestring_def is_json_ws_def)
qed

section \<open>Reading back what \<open>json.dumps\<close> prints\<close>

lemma lex_float:
  assumes "float_text t" and "delim_head rest"
  shows "lex (t @ rest) = map_option ((#) (TFloat t)) (lex rest)"
  using assms by (intro lex_atom) (simp_all add: float_text_def)

lemma lex_int:
  "delim_head rest \<Longrightarrow> lex (int_repr i @ rest) = map_option ((#) (TInt i)) (lex rest)"
  by (intro lex_atom scan_atom_int)

lemma newline_indent_ws: "list_all is_json_ws (newline_indent ind lvl)"
  by (cases ind) (simp_all add: newline_indent_def is_json_ws_def list_all_iff)

lemma lex_newline_indent: "lex (newline_indent ind lvl @ s) = lex s"
  by (rule lex_ws[OF newline_indent_ws])

lemma lex_separator:
  "lex (item_separator ind @ newline_indent ind lvl @ s) = map_option ((#) TComma) (lex s)"
proof (cases ind)
  case None
  have "lex (44 # [32] @ s) = map_option ((#) TComma) (lex ([32] @ s))"
    by (rule lex_punct) (simp add: punct_def)
  also have "lex ([32] @ s) = lex s"
    by (rule lex_ws) (simp add: is_json_ws_def)
  finally show ?thesis
    using None by (simp add: item_separator_def newline_indent_def)
next
  case (Some n)
  have "lex (44 # newline_indent ind lvl @ s) = map_option ((#) TComma) (lex (newline_indent ind lvl @ s))"
    by (rule lex_punct) (simp add: punct_def)
  with Some show ?thesis
    by (simp add: item_separator_def lex_newline_indent)
qed

lemma lex_colon: "lex ([58, 32] @ s) = map_option ((#) TColon) (lex s)"
proof -
  have "lex (58 # [32] @ s) = map_option ((#) TColon) (lex ([32] @ s))"
    by (rule lex_punct) (simp add: punct_def)
  also have "lex ([32] @ s) = lex s"
    by (rule lex_ws) (simp add: is_json_ws_def)
  finally show ?thesis by simp
qed

lemma lex_open_close:
  "lex (91 # s) = map_option ((#) TLBrack) (lex s)"
  "lex (93 # s) = map_option ((#) TRBrack) (lex s)"
  "lex (123 # s) = map_option ((#) TLBrace) (lex s)"
  "lex (125 # s) = map_option ((#) TRBrace) (lex s)"
  by (rule lex_punct, simp add: punct_def)+

lemma delim_head_separator: "delim_head (item_separator ind @ s)"
  by (cases ind) (simp_all add: item_separator_def delim_head_def delim_def)

lemma delim_head_close:
  "delim_head (newline_indent ind lvl @ 93 # s)" "delim_head (newline_indent ind lvl @ 125 # s)"
  by (cases ind; simp add: newline_indent_def delim_head_def delim_def is_py_space_def)+

lemma lex_encode:
  "list_all (\<lambda>x. float_text (fj x)) (floats v) \<Longrightarrow> delim_head rest \<Longrightarrow>
     lex (encode fj ind lvl v @ rest) = map_option ((@) (toks fj v)) (lex rest)"
  "list_all (\<lambda>x. float_text (fj x)) (floats_list vs) \<Longrightarrow> delim_head rest \<Longrightarrow>
     lex (encode_list fj ind lvl vs @ rest) = map_option ((@) (toks_list fj vs)) (lex rest)"
  "list_all (\<lambda>x. float_text (fj x)) (floats_dict d) \<Longrightarrow> delim_head rest \<Longrightarrow>
     lex (encode_dict fj ind lvl d @ rest) = map_option ((@) (toks_dict fj d)) (lex rest)"
proof (induction fj ind lvl v and fj ind lvl vs and fj ind lvl d
    arbitrary: rest and rest and rest rule: encode_encode_list_encode_dict.induct)
  case (1 fj ind lvl)
  show ?case by (cases "lex rest"; simp add: lex_null)
next
  case (2 fj ind lvl b)
  show ?case by (cases b; cases "lex rest"; simp add: lex_true lex_false)
next
  case (3 fj ind lvl i)
  then show ?case by (cases "lex rest"; simp add: lex_int)
next
  case (4 fj ind lvl x)
  then show ?case by (cases "lex rest"; simp add: lex_float)
next
  case (5 fj ind lvl s)
  show ?case by (cases "lex rest"; simp add: lex_string)
next
  case (6 fj ind lvl vs)
  show ?case
  proof (cases "vs = []")
    case True
    then show ?thesis
      by (cases "lex rest"; simp add: str_def lex_open_close)
  next
    case False
    have "lex (encode_list fj ind (Suc lvl) vs @ newline_indent ind lvl @ 93 # rest)
            = map_option ((@) (toks_list fj vs)) (lex (newline_indent ind lvl @ 93 # rest))"
      using 6 False by (intro 6(1)) (simp_all add: delim_head_close)
    with False show ?thesis
      by (cases "lex rest"; simp add: lex_open_close lex_newline_indent)
  qed
next
  case (7 fj ind lvl d)
  show ?case
  proof (cases "d = []")
    case True
    then show ?thesis
      by (cases "lex rest"; simp add: str_def lex_open_close)
  next
    case False
    have "lex (encode_dict fj ind (Suc lvl) d @ newline_indent ind lvl @ 125 # rest)
            = map_option ((@) (toks_dict fj d)) (lex (newline_indent ind lvl @ 125 # rest))"
      using 7 False by (intro 7(1)) (simp_all add: delim_head_close)
    with False show ?thesis
      by (cases "lex rest"; simp add: lex_open_close lex_newline_indent)
  qed
next
  case (8 fj ind lvl)
  show ?case by (cases "lex rest"; simp)
next
  case (9 fj ind lvl v vs)
  show ?case
  proof (cases "vs = []")
    case True
    with 9(1)[of rest] 9(3,4) show ?thesis by simp
  next
    case False
    let ?r = "item_separator ind @ newline_indent ind lvl @ encode_list fj ind lvl vs @ rest"
    from 9(3) have f: "list_all (\<lambda>x. float_text (fj x)) (floats v)"
      "list_all (\<lambda>x. float_text (fj x)) (floats_list vs)" by simp_all
    have a: "lex (encode fj ind lvl v @ ?r) = map_option ((@) (toks fj v)) (lex ?r)"
      by (rule 9(1)[OF f(1) delim_head_separator])
    have b: "lex (encode_list fj ind lvl vs @ rest) = map_option ((@) (toks_list fj vs)) (lex rest)"
      by (rule 9(2)[OF False f(2) 9(4)])
    from False a b show ?thesis
      by (cases "lex rest"; simp add: lex_separator)
  qed
next
  case (10 fj ind lvl)
  show ?case by (cases "lex rest"; simp)
next
  case (11 fj ind lvl kv d)
  from 11(3) have f: "list_all (\<lambda>x. float_text (fj x)) (floats (snd kv))"
    "list_all (\<lambda>x. float_text (fj x)) (floats_dict d)" by simp_all
  show ?case
  proof (cases "d = []")
    case True
    with 11(1)[OF f(1) 11(4)] show ?thesis
      using lex_string[of "fst kv" "[58, 32] @ encode fj ind lvl (snd kv) @ rest"]
        lex_colon[of "encode fj ind lvl (snd kv) @ rest"]
      by (cases "lex rest"; simp)
  next
    case False
    let ?r = "item_separator ind @ newline_indent ind lvl @ encode_dict fj ind lvl d @ rest"
    have a: "lex (encode fj ind lvl (snd kv) @ ?r) = map_option ((@) (toks fj (snd kv))) (lex ?r)"
      by (rule 11(1)[OF f(1) delim_head_separator])
    have b: "lex (encode_dict fj ind lvl d @ rest) = map_option ((@) (toks_dict fj d)) (lex rest)"
      by (rule 11(2)[OF False f(2) 11(4)])
    from False a b show ?thesis
      using lex_string[of "fst kv" "[58, 32] @ encode fj ind lvl (snd kv) @ ?r"]
        lex_colon[of "encode fj ind lvl (snd kv) @ ?r"]
      by (cases "lex rest"; simp add: lex_separator)
  qed
qed

section \<open>Parsing the tokens of a printed value\<close>

lemma toks_first:
  "\<exists>t r. toks fj v = t # r \<and> t \<noteq> TRBrack"
  by (cases v) simp_all

lemma run_arr_start:
  assumes "vs \<noteq> []"
  shows "run pf (SArrStart st) (toks_list fj vs @ ts)
           = run pf (SValue (CArr [] # st)) (toks_list fj vs @ ts)"
proof -
  from assms obtain v vs' where vs: "vs = v # vs'" by (cases vs) auto
  obtain t r where t: "toks fj v = t # r" "t \<noteq> TRBrack"
    using toks_first by blast
  show ?thesis by (simp add: vs t)
qed

lemma run_obj_start:
  "d \<noteq> [] \<Longrightarrow>
     run pf (SObjStart st) (toks_dict fj d @ ts) = run pf (SKey [] st) (toks_dict fj d @ ts)"
  by (cases d) simp_all

lemma mk_dict_Nil: "mk_dict [] = []"
  by (simp add: mk_dict_def)

lemma run_toks:
  "run pf (SValue st) (toks fj v @ ts) = run pf (give_value (reload pf fj v) st) ts"
  "vs \<noteq> [] \<Longrightarrow>
     run pf (SValue (CArr acc # st)) (toks_list fj vs @ TRBrack # ts)
       = run pf (give_value (JArr (acc @ reload_list pf fj vs)) st) ts"
  "d \<noteq> [] \<Longrightarrow>
     run pf (SKey ps st) (toks_dict fj d @ TRBrace # ts)
       = run pf (give_value (JObj (mk_dict (ps @ reload_dict pf fj d))) st) ts"
proof (induction fj v and fj vs and fj d arbitrary: st ts and acc st ts and ps st ts
    rule: toks_toks_list_toks_dict.induct)
  case (1 fj)
  show ?case by (simp add: begin_value_def)
next
  case (2 fj b)
  show ?case by (simp add: begin_value_def)
next
  case (3 fj i)
  show ?case by (simp add: begin_value_def)
next
  case (4 fj x)
  show ?case by (simp add: begin_value_def)
next
  case (5 fj s)
  show ?case by (simp add: begin_value_def)
next
  case (6 fj vs)
  show ?case
  proof (cases "vs = []")
    case True
    then show ?thesis by (simp add: begin_value_def)
  next
    case False
    have "run pf (SValue st) (toks fj (JArr vs) @ ts)
            = run pf (SArrStart st) (toks_list fj vs @ TRBrack # ts)"
      by (simp add: begin_value_def)
    also have "\<dots> = run pf (SValue (CArr [] # st)) (toks_list fj vs @ TRBrack # ts)"
      by (rule run_arr_start[OF False])
    also have "\<dots> = run pf (give_value (JArr ([] @ reload_list pf fj vs)) st) ts"
      by (rule 6[OF False])
    finally show ?thesis by simp
  qed
next
  case (7 fj d)
  show ?case
  proof (cases "d = []")
    case True
    then show ?thesis by (simp add: begin_value_def mk_dict_Nil)
  next
    case False
    have "run pf (SValue st) (toks fj (JObj d) @ ts)
            = run pf (SObjStart st) (toks_dict fj d @ TRBrace # ts)"
      by (simp add: begin_value_def)
    also have "\<dots> = run pf (SKey [] st) (toks_dict fj d @ TRBrace # ts)"
      by (rule run_obj_start[OF False])
    also have "\<dots> = run pf (give_value (JObj (mk_dict ([] @ reload_dict pf fj d))) st) ts"
      by (rule 7[OF False])
    finally show ?thesis by simp
  qed
next
  case (8 fj)
  then show ?case by simp
next
  case (9 fj v vs)
  show ?case
  proof (cases "vs = []")
    case True
    then show ?thesis by (simp add: 9(1))
  next
    case False
    have "run pf (SValue (CArr acc # st)) (toks_list fj (v # vs) @ TRBrack # ts)
            = run pf (SValue (CArr acc # st)) (toks fj v @ TComma # toks_list fj vs @ TRBrack # ts)"
      using False by simp
    also have "\<dots> = run pf (SValue (CArr (acc @ [reload pf fj v]) # st))
                          (toks_list fj vs @ TRBrack # ts)"
      by (simp add: 9(1))
    also have "\<dots> = run pf (give_value (JArr ((acc @ [reload pf fj v]) @ reload_list pf fj vs)) st) ts"
      by (rule 9(2)[OF False False])
    finally show ?thesis by simp
  qed
next
  case (10 fj)
  then show ?case by simp
next
  case (11 fj kv d)
  show ?case
  proof (cases "d = []")
    case True
    then show ?thesis by (simp add: 11(1))
  next
    case False
    have "run pf (SKey ps st) (toks_dict fj (kv # d) @ TRBrace # ts)
            = run pf (SValue (CObj ps (fst kv) # st))
                (toks fj (snd kv) @ TComma # toks_dict fj d @ TRBrace # ts)"
      using False by simp
    also have "\<dots> = run pf (SKey (ps @ [(fst kv, reload pf fj (snd kv))]) st)
                          (toks_dict fj d @ TRBrace # ts)"
      by (simp add: 11(1))
    also have "\<dots> = run pf (give_value (JObj (mk_dict
                 ((ps @ [(fst kv, reload pf fj (snd kv))]) @ reload_dict pf fj d))) st) ts"
      by (rule 11(2)[OF False False])
    finally show ?thesis by simp
  qed
qed

section \<open>The round trip\<close>

lemma lex_dumps:
  assumes "list_all (\<lambda>x. float_text (fj x)) (floats v)" and "list_all is_json_ws w"
  shows "lex (w @ json_dumps fj ind v) = Some (toks fj v)"
proof -
  have "lex (w @ json_dumps fj ind v) = lex (encode fj ind 0 v @ [])"
    by (simp add: lex_ws[OF assms(2)] json_dumps_def)
  also have "\<dots> = map_option ((@) (toks fj v)) (lex [])"
    by (rule lex_encode(1)[OF assms(1)]) (simp add: delim_head_def)
  finally show ?thesis by (simp add: lex.simps)
qed

lemma loads_dumps:
  assumes "list_all (\<lambda>x. float_text (fj x)) (floats v)" and "list_all is_json_ws w"
  shows "json_loads pf (w @ json_dumps fj ind v) = Inr (reload pf fj v)"
proof -
  have "run pf (SValue []) (toks fj v @ []) = run pf (give_value (reload pf fj v) []) []"
    by (rule run_toks(1))
  then have "run pf (SValue []) (toks fj v) = Some (SDone (reload pf fj v))" by simp
  with lex_dumps[OF assms] show ?thesis
    by (simp add: json_loads_def)
qed

section \<open>What \<open>upload_pdf\<close> returns\<close>

text \<open>
  A value other than \<open>None\<close> comes from the last stage alone: the notification's
  response is a dictionary with a truthy \<open>success\<close> and a key \<open>data\<close>, and the value is
  the text \<open>"attachments": \<close> followed by the indented serialization of that field.
\<close>

lemma attachment_fragment_Some:
  assumes "snd (attachment_fragment E final_result) = Inr (Some s)"
  shows "\<exists>d. final_result = JObj d
             \<and> truthy (float_bool E) (dict_get d (str ''success''))
             \<and> py_contains d (str ''data'')
             \<and> s = str ''\"attachments\": ''
                   @ json_dumps (float_json E) (Some 2) (dict_get d (str ''data''))"
  using assms
  by (cases final_result)
     (auto simp: attachment_fragment_def split: if_splits)

lemma upload_pdf_Some:
  assumes "snd (upload_pdf E fp) = Inr (Some s)"
  shows "\<exists>info d.
           path_exists E fp
           \<and> truthy (float_bool E) (snd (get_upload_credentials E (path_basename E fp)))
           \<and> snd (upload_to_cos E (snd (get_upload_credentials E (path_basename E fp))) fp)
               = Inr (Some info)
           \<and> snd (notify_application_server E (path_basename E fp) info) = JObj d
           \<and> truthy (float_bool E) (dict_get d (str ''success''))
           \<and> py_contains d (str ''data'')
           \<and> s = str ''\"attachments\": ''
                 @ json_dumps (float_json E) (Some 2) (dict_get d (str ''data''))"
proof -
  let ?f = "path_basename E fp"
  obtain tg c where g: "get_upload_credentials E ?f = (tg, c)"
    by (cases "get_upload_credentials E ?f")
  from assms have ex: "path_exists E fp"
    by (auto simp: upload_pdf_def split: if_splits)
  have snd_bnd: "snd (bnd (tr, Inr x) f) = snd (f x)" for tr x and f :: "'x \<Rightarrow> ('f, 'y) io"
    by (simp add: bnd_Inr)
  have total_pair: "total (tr, x) = (tr, Inr x)" for tr :: "'f event list" and x :: "'x"
    by (simp add: total_def)
  from assms ex g have tc: "truthy (float_bool E) c"
    by (auto simp: upload_pdf_def total_pair snd_bnd split: if_splits)
  obtain tu ru where u: "upload_to_cos E c fp = (tu, ru)" by (cases "upload_to_cos E c fp")
  have a: "snd (bnd (tu, ru) (\<lambda>uploaded.
              case uploaded of
                None \<Rightarrow> ([], Inr None)
              | Some info \<Rightarrow>
                  bnd (total (notify_application_server E ?f info)) (attachment_fragment E)))
            = Inr (Some s)"
    using assms ex g tc u by (simp add: upload_pdf_def total_pair snd_bnd)
  then obtain info where ru: "ru = Inr (Some info)"
    by (cases ru; cases "projr ru") (auto simp: bnd_Inl snd_bnd)
  obtain tn rn where n: "notify_application_server E ?f info = (tn, rn)"
    by (cases "notify_application_server E ?f info")
  from a have "snd (attachment_fragment E rn) = Inr (Some s)"
    by (simp add: ru n total_pair snd_bnd)
  from attachment_fragment_Some[OF this] obtain d where d: "rn = JObj d"
    "truthy (float_bool E) (dict_get d (str ''success''))" "py_contains d (str ''data'')"
    "s = str ''\"attachments\": '' @ json_dumps (float_json E) (Some 2) (dict_get d (str ''data''))"
    by blast
  from ex tc g u ru n d show ?thesis by simp
qed

text \<open>
  Such a value splits at its first colon into the key part \<open>"attachments"\<close> and the
  value part, a space and the serialization; the key part stripped is
  \<open>attachments\<close>, and the value part is parsed to the value read back, provided each
  float of the data is printed as a text that the scanner reads as one float.
\<close>

lemma fragment_parts:
  fixes E :: "'f env" and v :: "'f json"
  defines "s \<equiv> str ''\"attachments\": '' @ json_dumps (float_json E) (Some 2) v"
  assumes "list_all (\<lambda>x. float_text (float_json E x)) (floats v)"
  shows "\<exists>k val. split_first 58 s = [k, val]
           \<and> strip_by (\<lambda>c. c = 34) (strip_by is_py_space k) = str ''attachments''
           \<and> json_loads (py_float E) val = Inr (reload (py_float E) (float_json E) v)"
proof -
  have "json_loads (py_float E) ([32] @ json_dumps (float_json E) (Some 2) v)
          = Inr (reload (py_float E) (float_json E) v)"
    by (rule loads_dumps[OF assms(2)]) (simp add: is_json_ws_def)
  then show ?thesis
    unfolding s_def by (simp add: split_attachments attachments_key)
qed

text \<open>The texts Python prints for the floats 1.5 and 1.5e-07 are read as one float each.\<close>

lemma float_text_samples: "float_text (str ''1.5'')" "float_text (str ''1.5e-07'')"
  unfolding float_text_def by code_simp+

lemma fragment_parts_sample:
  "\<exists>k val.
     split_first 58 (str ''\"attachments\": ''
                     @ json_dumps (float_json demo_env) (Some 2)
                         (JArr [JObj [(str ''size'', JFloat (str ''1.5'')), (str ''id'', JInt (- 7)),
                                      (str ''name'', JStr (str ''a\"b'')), (str ''tag'', JNull)]]))
       = [k, val]
     \<and> strip_by (\<lambda>c. c = 34) (strip_by is_py_space k) = str ''attachments''
     \<and> json_loads (py_float demo_env) val
         = Inr (JArr [JObj [(str ''size'', JFloat (str ''1.5'')), (str ''id'', JInt (- 7)),
                            (str ''name'', JStr (str ''a\"b'')), (str ''tag'', JNull)]])"
proof -
  let ?v = "JArr [JObj [(str ''size'', JFloat (str ''1.5'')), (str ''id'', JInt (- 7)),
                        (str ''name'', JStr (str ''a\"b'')), (str ''tag'', JNull)]] :: pystr json"
  have f: "float_json demo_env = (\<lambda>x. x)" "py_float demo_env = (\<lambda>t. t)"
    by (simp_all add: demo_env_def scenario_def)
  have "list_all (\<lambda>x. float_text (float_json demo_env x)) (floats ?v)"
    by (simp add: f float_text_samples)
  from fragment_parts[OF this] have
    "\<exists>k val. split_first 58 (str ''\"attachments\": '' @ json_dumps (float_json demo_env) (Some 2) ?v)
                 = [k, val]
       \<and> strip_by (\<lambda>c. c = 34) (strip_by is_py_space k) = str ''attachments''
       \<and> json_loads (py_float demo_env) val
           = Inr (reload (py_float demo_env) (float_json demo_env) ?v)" .
  moreover have "reload (py_float demo_env) (float_json demo_env) ?v = ?v"
    by (simp add: f mk_dict_def str_def)
  ultimately show ?thesis by simp
qed

text \<open>
  The notification reports what it will, but its response has no \<open>data\<close>:
  \<open>upload_pdf\<close> returns \<open>None\<close>.
\<close>

lemma upload_pdf_no_data:
  assumes "path_exists E fp"
    and "truthy (float_bool E) (snd (get_upload_credentials E (path_basename E fp)))"
    and "snd (upload_to_cos E (snd (get_upload_credentials E (path_basename E fp))) fp)
           = Inr (Some info)"
    and "snd (notify_application_server E (path_basename E fp) info) = JObj d"
    and "\<not> py_contains d (str ''data'')"
  shows "snd (upload_pdf E fp) = Inr None"
proof -
  let ?f = "path_basename E fp"
  obtain tg c where g: "get_upload_credentials E ?f = (tg, c)"
    by (cases "get_upload_credentials E ?f")
  obtain tu where u: "upload_to_cos E c fp = (tu, Inr (Some info))"
    using assms(3) g by (cases "upload_to_cos E c fp") simp
  obtain tn where n: "notify_application_server E ?f info = (tn, JObj d)"
    using assms(4) by (cases "notify_application_server E ?f info") simp
  have "snd (attachment_fragment E (JObj d)) = Inr None"
    using assms(5) by (simp add: attachment_fragment_def)
  with assms(1,2) g u n show ?thesis
    by (simp add: upload_pdf_def total_def bnd_Inr)
qed

section \<open>Where \<open>upload_pdf\<close> does not return\<close>

text \<open>
  An exception of the part of \<open>upload_to_cos\<close> before its \<open>try\<close> leaves \<open>upload_pdf\<close>,
  and \<open>save_new_paper\<close> with it.
\<close>

lemma upload_pdf_raised:
  assumes "path_exists E fp"
    and "get_upload_credentials E (path_basename E fp) = (tg, c)"
    and "truthy (float_bool E) c"
    and "cos_prepare E c fp = Inl e"
  shows "upload_pdf E fp = (tg @ [EvPrint MsgStage2], Inl e)"
  using assms
  by (simp add: upload_pdf_def total_def bnd_Inr bnd_Inl upload_to_cos_raised)

lemma save_new_paper_upload_raised:
  assumes "ask_llm_for_playload E (llm_prompt qp) = Inr frag"
    and "upload_pdf E (pdf_path qp) = (t, Inl e)"
  shows "save_new_paper E qp = (EvAskLLM (llm_prompt qp) # t, qp, Inl e)"
proof -
  have "assemble E qp = (EvAskLLM (llm_prompt qp) # t, Inl e)"
    using assms by (simp add: assemble_def bnd_Inr bnd_Inl)
  then show ?thesis by (rule save_new_paper_raised)
qed

lemma no_prefix_fetched:
  "get_upload_credentials no_prefix_env f
     = ([EvPrint MsgStage1, EvCredentialRequest f, EvPrint MsgCredOk], no_prefix_credentials)"
  by (simp add: get_upload_credentials_def no_prefix_env_def scenario_def
      py_get_def dict_get_def str_def)

lemma no_prefix_prepare:
  "cos_prepare no_prefix_env no_prefix_credentials fp = Inl (KeyError (str ''keyPrefix''))"
  by (simp add: cos_prepare_def sbind_def subscript_def no_prefix_credentials_def
      no_prefix_env_def scenario_def str_def)

lemma no_cdn_fetched:
  "get_upload_credentials no_cdn_env f
     = ([EvPrint MsgStage1, EvCredentialRequest f, EvPrint MsgCredOk], no_cdn_credentials)"
  by (simp add: get_upload_credentials_def no_cdn_env_def scenario_def
      py_get_def dict_get_def str_def)

lemma no_cdn_prepare:
  "cos_prepare no_cdn_env no_cdn_credentials fp
     = Inr (JStr (str ''b1''), key (demo_info demo_uuid fp))"
  by (simp add: cos_prepare_def sbind_def subscript_def no_cdn_credentials_def
      no_cdn_env_def scenario_def demo_info_def fmt_def str_def)

lemma no_cdn_upload:
  "snd (upload_to_cos no_cdn_env no_cdn_credentials fp) = Inr None"
  by (simp add: upload_to_cos_prepared[OF no_cdn_prepare])
     (simp add: no_cdn_env_def scenario_def subscript_def no_cdn_credentials_def str_def)

text \<open>
  Claim C10 does not hold of the code where the credential structure lacks a field
  that \<open>upload_to_cos\<close> reads before its \<open>try\<close>.  With credential data that has no
  \<open>keyPrefix\<close>, \<open>upload_pdf\<close> returns neither the fragment nor \<open>None\<close>: the \<open>KeyError\<close> of
  line 87 leaves \<open>upload_to_cos\<close>, \<open>upload_pdf\<close> and \<open>save_new_paper\<close>.  With credential
  data that has no \<open>cdnDomain\<close>, which is read inside the \<open>try\<close>, \<open>upload_pdf\<close> returns
  \<open>None\<close>.
\<close>

theorem missing_key_prefix_raises:
  "snd (get_upload_credentials no_prefix_env (str ''Test2024.pdf'')) = no_prefix_credentials
   \<and> snd (upload_pdf no_prefix_env (pdf_path demo_page)) = Inl (KeyError (str ''keyPrefix''))
   \<and> snd (snd (save_new_paper no_prefix_env demo_page)) = Inl (KeyError (str ''keyPrefix''))
   \<and> snd (get_upload_credentials no_cdn_env (str ''Test2024.pdf'')) = no_cdn_credentials
   \<and> snd (upload_pdf no_cdn_env (pdf_path demo_page)) = Inr None"
proof -
  let ?fp = "pdf_path demo_page"
  have e: "path_exists no_prefix_env ?fp" "path_exists no_cdn_env ?fp"
    and b: "path_basename no_prefix_env ?fp = posix_basename ?fp"
      "path_basename no_cdn_env ?fp = posix_basename ?fp"
    and l: "ask_llm_for_playload no_prefix_env (llm_prompt demo_page) = Inr demo_fragment"
    by (simp_all add: no_prefix_env_def no_cdn_env_def scenario_def)
  have t: "truthy (float_bool no_prefix_env) no_prefix_credentials"
    "truthy (float_bool no_cdn_env) no_cdn_credentials"
    by (simp_all add: no_prefix_credentials_def no_cdn_credentials_def)
  have g: "get_upload_credentials no_prefix_env (path_basename no_prefix_env ?fp)
             = ([EvPrint MsgStage1, EvCredentialRequest (posix_basename ?fp), EvPrint MsgCredOk],
                no_prefix_credentials)"
    by (simp add: b no_prefix_fetched)
  note u = upload_pdf_raised[OF e(1) g t(1) no_prefix_prepare]
  note s = save_new_paper_upload_raised[OF l u]
  have "snd (upload_pdf no_cdn_env ?fp) = Inr None"
    using e(2) t(2)
    by (simp add: upload_pdf_def total_def bnd_Inr no_cdn_fetched)
       (cases "upload_to_cos no_cdn_env no_cdn_credentials ?fp";
        use no_cdn_upload[of ?fp] in \<open>simp add: bnd_Inr\<close>)
  then show ?thesis
    by (simp add: u s no_prefix_fetched no_cdn_fetched)
qed

end
